theory Spec2Isabelle
  imports Complex_Main "HOL-Library.AList"
begin

section \<open>Kokoro local TTS GUI: a shallow embedding of the synthesis orchestration\<close>

text \<open>
  The development follows the Python sources \<^verbatim>\<open>models.py\<close>, \<^verbatim>\<open>tts_wrapper.py\<close>,
  \<^verbatim>\<open>persistence.py\<close>, \<^verbatim>\<open>temp_cleanup.py\<close> and \<^verbatim>\<open>ui_main.py\<close>.  Everything the
  code does to its surroundings is explicit: the file system, the clock, the network and
  the cached pipeline are fields of a \<open>world\<close> that every operation takes and returns;
  an exception is the \<open>Inl\<close> value of a sum, and the world returned with it holds what
  was done before the exception; what the operating system or a library decides (whether
  a write, a removal or a download fails, what the inference pipeline yields, how a float
  is printed and read) is read from an \<open>env\<close> of oracles.  The JSON encoder and decoder
  of the standard library are written out for the values that the ledger holds.

  Not modelled: log and \<^verbatim>\<open>print\<close> output; the layout of the widgets; the conversion of
  samples to 16-bit PCM (a wave file holds the sample list that was written).  Time
  stamps and audio samples are Python floats and are modelled as exact reals.  The
  operations read the clock and do not advance it.  A Python string is a list of
  characters with code points below 256.  The inference pipeline is a library outside
  the repository; its result, a generator in the source, is the finite list of the
  segments it yields, and a pipeline that raises while it is iterated is outside the
  model.  A worker thread runs as one step, between two steps of the thread of the user
  interface.
\<close>

subsection \<open>Strings\<close>

text \<open>\<^verbatim>\<open>str.startswith\<close>.\<close>

definition startswith :: "string \<Rightarrow> string \<Rightarrow> bool" where
  "startswith s p = (take (length p) s = p)"

text \<open>
  \<^verbatim>\<open>str.isspace\<close> on one character, for the code points below 256: tab, line feed,
  vertical tab, form feed, carriage return, the separators 28 to 31, space, NEL (133)
  and the no-break space (160).
\<close>

definition isspace :: "char \<Rightarrow> bool" where
  "isspace c = ((of_char c :: nat) \<in> {9, 10, 11, 12, 13, 28, 29, 30, 31, 32, 133, 160})"

text \<open>\<^verbatim>\<open>str.strip()\<close>: leading and trailing white space removed.\<close>

definition strip :: "string \<Rightarrow> string" where
  "strip s = rev (dropWhile isspace (rev (dropWhile isspace s)))"

text \<open>\<^verbatim>\<open>str(n)\<close> of a non-negative integer, as in \<^verbatim>\<open>f"..._{chunk_index}.wav"\<close>.\<close>

definition digit_char :: "nat \<Rightarrow> char" where
  "digit_char d = ''0123456789'' ! d"

fun str_nat :: "nat \<Rightarrow> string" where
  "str_nat n = (if n < 10 then [digit_char n] else str_nat (n div 10) @ [digit_char (n mod 10)])"

text \<open>\<^verbatim>\<open>s.replace('.pt', '')\<close>: every occurrence removed, scanning from the left.\<close>

fun replace_pt :: "string \<Rightarrow> string" where
  "replace_pt (a # b # c # s) =
     (if a = CHR ''.'' \<and> b = CHR ''p'' \<and> c = CHR ''t'' then replace_pt s
      else a # replace_pt (b # c # s))"
| "replace_pt (a # s) = a # replace_pt s"
| "replace_pt [] = []"

text \<open>\<^verbatim>\<open>s.rsplit('.', 1)[0]\<close>: the part before the last dot, the whole string without one.\<close>

definition rsplit_dot_head :: "string \<Rightarrow> string" where
  "rsplit_dot_head s =
     (if CHR ''.'' \<in> set s then rev (tl (dropWhile (\<lambda>c. c \<noteq> CHR ''.'') (rev s))) else s)"

text \<open>\<^verbatim>\<open>str.upper()\<close> on ASCII letters.\<close>

definition upper :: "string \<Rightarrow> string" where
  "upper s = map (\<lambda>c. if 97 \<le> (of_char c :: nat) \<and> (of_char c :: nat) \<le> 122
                        then char_of ((of_char c :: nat) - 32) else c) s"

subsection \<open>Paths\<close>

text \<open>\<^verbatim>\<open>os.path.join\<close> of two components (POSIX rules).\<close>

definition os_path_join :: "string \<Rightarrow> string \<Rightarrow> string" where
  "os_path_join a b =
     (if startswith b ''/'' then b
      else if a = [] \<or> last a = CHR ''/'' then a @ b
      else a @ ''/'' @ b)"

text \<open>The last component of a path (\<^verbatim>\<open>os.path.basename\<close>, \<^verbatim>\<open>Path.name\<close>).\<close>

definition basename :: "string \<Rightarrow> string" where
  "basename p = rev (takeWhile (\<lambda>c. c \<noteq> CHR ''/'') (rev p))"

text \<open>
  \<^verbatim>\<open>Path(p).stem\<close>: the last component without its suffix; a name whose only dot is its
  first or its last character has no suffix.
\<close>

definition stem :: "string \<Rightarrow> string" where
  "stem p =
     (let name = basename p;
          i = length name - Suc (length (takeWhile (\<lambda>c. c \<noteq> CHR ''.'') (rev name)))
      in if CHR ''.'' \<in> set name \<and> 0 < i \<and> i < length name - 1 then take i name else name)"

text \<open>
  The file a path names.  The sources name one file as \<^verbatim>\<open>voices/x.pt\<close> and as
  \<^verbatim>\<open>./voices/x.pt\<close> (\<^verbatim>\<open>os.path.join(".", "voices/x.pt")\<close>); both resolve to the same
  key.  Other aliases (\<^verbatim>\<open>..\<close>, doubled slashes, links) are not modelled.
\<close>

fun resolve :: "string \<Rightarrow> string" where
  "resolve (a # b # p) = (if a = CHR ''.'' \<and> b = CHR ''/'' then resolve p else a # b # p)"
| "resolve p = p"

subsection \<open>Errors, files and the world\<close>

datatype error =
    FileNotFoundError
  | NotADirectoryError
  | FileExistsError
  | ValueError
  | OSError
  | IOError
  | NetworkError
  | UnpicklingError
  | RuntimeError

type_synonym tensor = "real list"

text \<open>One result of the inference pipeline: graphemes, phonemes and the audio, if any.\<close>

type_synonym segment = "string \<times> string \<times> tensor option"

text \<open>The per-chunk metadata and the record of one synthesis call that the ledger keeps.\<close>

record chunk_meta =
  graphemes :: string
  phonemes :: string
  filepath :: string

record generation =
  timestamp :: real
  chunks :: "chunk_meta list"
  combined :: string

datatype content =
    Wav tensor
  | Text string
  | Blob string

datatype node =
    Dir
  | File real content

type_synonym filesystem = "(string \<times> node) list"

text \<open>The cached \<^verbatim>\<open>KPipeline\<close> object: its device and its dictionary of loaded voices.\<close>

record pipeline =
  device :: string
  voices :: "(string \<times> tensor) list"

text \<open>
  The world: the files, the clock, the names given to \<^verbatim>\<open>hf_hub_download\<close> in the order
  of the calls, the number of writes of audio files attempted so far, and the module
  variable \<^verbatim>\<open>_pipeline\<close> of \<^verbatim>\<open>models.py\<close>.
\<close>

record world =
  fs :: filesystem
  clock :: real
  fetch_log :: "string list"
  write_count :: nat
  cached_pipeline :: "pipeline option"

text \<open>
  What the surroundings decide: whether the \<open>n\<close>-th write of an audio file, in a format
  and to a path, fails; whether a file can be opened for writing, removed, downloaded;
  what a download stores; whether the \<^verbatim>\<open>KPipeline\<close> can be created; what \<^verbatim>\<open>torch.load\<close>
  makes of a file; the segments the pipeline yields for a text, a voice file, a speed and
  a split pattern; \<^verbatim>\<open>time.strftime\<close>; the text that \<^verbatim>\<open>float.__repr__\<close> gives for a float,
  and the number that the JSON decoder reads from the text of a number (\<open>None\<close> when the
  text is not a JSON number).
\<close>

record env =
  write_fails :: "nat \<Rightarrow> string \<Rightarrow> string \<Rightarrow> bool"
  open_w_fails :: "string \<Rightarrow> bool"
  remove_fails :: "string \<Rightarrow> bool"
  fetch_fails :: "string \<Rightarrow> bool"
  remote_content :: "string \<Rightarrow> content"
  kpipeline_fails :: bool
  torch_load :: "content \<Rightarrow> error + tensor option"
  raw_synthesis :: "string \<Rightarrow> string \<Rightarrow> real \<Rightarrow> string \<Rightarrow> segment list"
  strftime :: "real \<Rightarrow> string"
  float_repr :: "real \<Rightarrow> string"
  float_parse :: "string \<Rightarrow> real option"

subsection \<open>The operating system\<close>

definition lookup :: "filesystem \<Rightarrow> string \<Rightarrow> node option" where
  "lookup f p = map_of f (resolve p)"

definition os_path_exists :: "filesystem \<Rightarrow> string \<Rightarrow> bool" where
  "os_path_exists f p = (lookup f p \<noteq> None)"

definition os_path_isfile :: "filesystem \<Rightarrow> string \<Rightarrow> bool" where
  "os_path_isfile f p = (case lookup f p of Some (File t c) \<Rightarrow> True | _ \<Rightarrow> False)"

definition os_path_isdir :: "filesystem \<Rightarrow> string \<Rightarrow> bool" where
  "os_path_isdir f p = (case lookup f p of Some Dir \<Rightarrow> True | _ \<Rightarrow> False)"

text \<open>\<^verbatim>\<open>os.path.getmtime\<close>, called by the sources on regular files only.\<close>

definition os_path_getmtime :: "filesystem \<Rightarrow> string \<Rightarrow> error + real" where
  "os_path_getmtime f p = (case lookup f p of Some (File t c) \<Rightarrow> Inr t | _ \<Rightarrow> Inl OSError)"

text \<open>
  \<^verbatim>\<open>os.listdir\<close>: the names of the entries whose path is the directory joined with the
  name; it raises when the path is not an existing directory.
\<close>

definition os_listdir :: "filesystem \<Rightarrow> string \<Rightarrow> error + string list" where
  "os_listdir f d =
     (if os_path_isdir f d
      then Inr [basename k. k \<leftarrow> map fst f, basename k \<noteq> [],
                            resolve (os_path_join d (basename k)) = k]
      else if os_path_exists f d then Inl NotADirectoryError
      else Inl FileNotFoundError)"

text \<open>Creating or replacing a regular file; its modification time is the current time.\<close>

definition put_file :: "string \<Rightarrow> content \<Rightarrow> world \<Rightarrow> world" where
  "put_file p c w = w\<lparr>fs := AList.update (resolve p) (File (clock w) c) (fs w)\<rparr>"

text \<open>\<^verbatim>\<open>os.remove\<close>: only a regular file can be removed, and the system may refuse.\<close>

definition os_remove :: "env \<Rightarrow> string \<Rightarrow> world \<Rightarrow> (error + unit) \<times> world" where
  "os_remove e p w =
     (if os_path_isfile (fs w) p \<and> \<not> remove_fails e p
      then (Inr (), w\<lparr>fs := AList.delete (resolve p) (fs w)\<rparr>)
      else (Inl OSError, w))"

text \<open>\<^verbatim>\<open>Path.mkdir(exist_ok=True)\<close>.\<close>

definition mkdir_exist_ok :: "string \<Rightarrow> world \<Rightarrow> (error + unit) \<times> world" where
  "mkdir_exist_ok p w =
     (case lookup (fs w) p of
        None \<Rightarrow> (Inr (), w\<lparr>fs := AList.update (resolve p) Dir (fs w)\<rparr>)
      | Some Dir \<Rightarrow> (Inr (), w)
      | Some (File t c) \<Rightarrow> (Inl FileExistsError, w))"

subsection \<open>The model store (\<^verbatim>\<open>models.py\<close>)\<close>

definition VOICE_FILES :: "string list" where
  "VOICE_FILES =
     [''af_alloy.pt'', ''af_aoede.pt'', ''af_bella.pt'', ''af_jessica.pt'',
      ''af_kore.pt'', ''af_nicole.pt'', ''af_nova.pt'', ''af_river.pt'',
      ''af_sarah.pt'', ''af_sky.pt'',
      ''am_adam.pt'', ''am_echo.pt'', ''am_eric.pt'', ''am_fenrir.pt'',
      ''am_liam.pt'', ''am_michael.pt'', ''am_onyx.pt'', ''am_puck.pt'',
      ''am_santa.pt'',
      ''bf_alice.pt'', ''bf_emma.pt'', ''bf_isabella.pt'', ''bf_lily.pt'',
      ''bm_daniel.pt'', ''bm_fable.pt'', ''bm_george.pt'', ''bm_lewis.pt'',
      ''el_dora.pt'', ''em_alex.pt'', ''em_santa.pt'',
      ''ff_siwis.pt'',
      ''hf_alpha.pt'', ''hf_beta.pt'',
      ''hm_omega.pt'', ''hm_psi.pt'',
      ''jf_sara.pt'', ''jm_nicola.pt'',
      ''jf_alpha.pt'', ''jf_gongtsuene.pt'', ''jf_nezumi.pt'', ''jf_tebukuro.pt'',
      ''jm_kumo.pt'',
      ''pf_dora.pt'', ''pm_alex.pt'', ''pm_santa.pt'',
      ''zf_xiaobei.pt'', ''zf_xiaoni.pt'', ''zf_xiaoqiao.pt'', ''zf_xiaoyi.pt'']"

definition REPO_ID :: string where
  "REPO_ID = ''hexgrad/Kokoro-82M''"

text \<open>
  \<^verbatim>\<open>hf_hub_download\<close> of the Hugging Face library, as the sources rely on it: every call
  goes to the network and is recorded in \<open>fetch_log\<close>; it either raises or stores the
  remote file under \<^verbatim>\<open>local_dir/filename\<close> and returns that path.
\<close>

definition hf_hub_download ::
  "env \<Rightarrow> string \<Rightarrow> string \<Rightarrow> string \<Rightarrow> world \<Rightarrow> (error + string) \<times> world" where
  "hf_hub_download e repo_id filename local_dir w =
     (let w1 = w\<lparr>fetch_log := fetch_log w @ [filename]\<rparr>
      in if fetch_fails e filename then (Inl NetworkError, w1)
         else (Inr (os_path_join local_dir filename),
               put_file (os_path_join local_dir filename) (remote_content e filename) w1))"

text \<open>\<^verbatim>\<open>download_file\<close>: the local path, or the empty string when the download failed.\<close>

definition download_file ::
  "env \<Rightarrow> string \<Rightarrow> string \<Rightarrow> string \<Rightarrow> world \<Rightarrow> string \<times> world" where
  "download_file e repo_id filename local_dir w =
     (let local_path = os_path_join local_dir filename
      in if \<not> os_path_exists (fs w) local_path
         then (case hf_hub_download e repo_id filename local_dir w of
                 (Inr download_path, w') \<Rightarrow> (download_path, w')
               | (Inl x, w') \<Rightarrow> ([], w'))
         else (local_path, w))"

text \<open>The loop of \<^verbatim>\<open>download_voice_files\<close> over \<^verbatim>\<open>VOICE_FILES\<close>.\<close>

fun download_voices_loop ::
  "env \<Rightarrow> bool \<Rightarrow> string list \<Rightarrow> string list \<Rightarrow> world \<Rightarrow> string list \<times> world" where
  "download_voices_loop e force_download [] downloaded_voices w = (downloaded_voices, w)"
| "download_voices_loop e force_download (voice_file # rest) downloaded_voices w =
     (let voice_path = os_path_join ''voices'' voice_file
      in if force_download \<or> \<not> os_path_exists (fs w) voice_path
         then (case download_file e REPO_ID (''voices/'' @ voice_file) ''.'' w of
                 (r, w') \<Rightarrow>
                   if r \<noteq> []
                   then download_voices_loop e force_download rest
                          (downloaded_voices @ [voice_file]) w'
                   else download_voices_loop e force_download rest downloaded_voices w')
         else download_voices_loop e force_download rest
                (downloaded_voices @ [voice_file]) w)"

definition download_voice_files ::
  "env \<Rightarrow> bool \<Rightarrow> world \<Rightarrow> (error + string list) \<times> world" where
  "download_voice_files e force_download w =
     (case mkdir_exist_ok ''voices'' w of
        (Inl x, w') \<Rightarrow> (Inl x, w')
      | (Inr u, w') \<Rightarrow>
          (case download_voices_loop e force_download VOICE_FILES [] w' of
             (downloaded_voices, w'') \<Rightarrow> (Inr downloaded_voices, w'')))"

text \<open>
  \<^verbatim>\<open>build_model\<close>: the cached pipeline if there is one; otherwise the model file and
  the configuration file are downloaded when missing and the pipeline is created and
  cached.  The handler of the \<^verbatim>\<open>try\<close> prints and raises the same exception again.
\<close>

definition build_model ::
  "env \<Rightarrow> string \<Rightarrow> string \<Rightarrow> world \<Rightarrow> (error + pipeline) \<times> world" where
  "build_model e model_path dev w =
     (case cached_pipeline w of
        Some p \<Rightarrow> (Inr p, w)
      | None \<Rightarrow>
          (case (if \<not> os_path_exists (fs w) model_path
                 then download_file e REPO_ID ''kokoro-v1_0.pth'' ''.'' w
                 else (model_path, w)) of
             (model_path', w1) \<Rightarrow>
               if model_path' = [] then (Inl ValueError, w1)
               else
                 (case (if \<not> os_path_exists (fs w1) ''config.json''
                        then download_file e REPO_ID ''config.json'' ''.'' w1
                        else (''config.json'', w1)) of
                    (config_path, w2) \<Rightarrow>
                      if config_path = [] then (Inl ValueError, w2)
                      else if kpipeline_fails e then (Inl RuntimeError, w2)
                      else (let p = \<lparr>device = dev, voices = []\<rparr>
                            in (Inr p, w2\<lparr>cached_pipeline := Some p\<rparr>)))))"

text \<open>
  \<^verbatim>\<open>patched_load_voice\<close>, the replacement of \<^verbatim>\<open>KPipeline.load_voice\<close>; \<open>p\<close> is the
  cached pipeline object, whose dictionary of voices it updates.
\<close>

definition patched_load_voice ::
  "env \<Rightarrow> pipeline \<Rightarrow> string \<Rightarrow> world \<Rightarrow> (error + tensor) \<times> world" where
  "patched_load_voice e p voice_path w =
     (if \<not> os_path_exists (fs w) voice_path then (Inl FileNotFoundError, w)
      else
        (let voice_name = stem voice_path
         in case (case lookup (fs w) voice_path of
                    Some (File t c) \<Rightarrow> torch_load e c
                  | _ \<Rightarrow> Inl OSError) of
              Inl x \<Rightarrow> (Inl x, w)
            | Inr None \<Rightarrow> (Inl ValueError, w)
            | Inr (Some voice_model) \<Rightarrow>
                (Inr voice_model,
                 w\<lparr>cached_pipeline :=
                      Some (p\<lparr>voices := AList.update voice_name voice_model (voices p)\<rparr>)\<rparr>)))"

text \<open>\<^verbatim>\<open>load_voice\<close>: the voice file is downloaded, with all missing voices, if absent.\<close>

definition load_voice ::
  "env \<Rightarrow> string \<Rightarrow> string \<Rightarrow> world \<Rightarrow> (error + tensor) \<times> world" where
  "load_voice e voice_name dev w =
     (case build_model e ''kokoro-v1_0.pth'' dev w of
        (Inl x, w1) \<Rightarrow> (Inl x, w1)
      | (Inr p, w1) \<Rightarrow>
          (let voice_name' = replace_pt voice_name;
               voice_path = ''voices/'' @ voice_name' @ ''.pt''
           in if \<not> os_path_exists (fs w1) voice_path
              then (case download_voice_files e False w1 of
                      (Inl x, w2) \<Rightarrow> (Inl x, w2)
                    | (Inr ds, w2) \<Rightarrow>
                        if \<not> os_path_exists (fs w2) voice_path then (Inl ValueError, w2)
                        else patched_load_voice e p voice_path w2)
              else patched_load_voice e p voice_path w1))"

subsection \<open>The synthesis engine (\<^verbatim>\<open>tts_wrapper.py\<close>)\<close>

record tts_wrapper =
  output_dir :: string
  temp_dir :: string
  split_pattern :: string
  model_path :: string
  tts_device :: string
  voice :: string
  last_synthesis_timestamp :: "string option"

text \<open>One entry of \<^verbatim>\<open>synthesis_result_list\<close>: graphemes, phonemes, samples, chunk file.\<close>

type_synonym chunk = "string \<times> string \<times> tensor \<times> string"

text \<open>
  \<^verbatim>\<open>sf.write\<close> of the soundfile library: it raises when the system refuses this write
  (the oracle is asked with the number of the attempt, so that a second attempt on the
  same path may succeed) or the path is a directory, and stores the samples otherwise.
\<close>

definition sf_write ::
  "env \<Rightarrow> string \<Rightarrow> tensor \<Rightarrow> string \<Rightarrow> world \<Rightarrow> (error + unit) \<times> world" where
  "sf_write e p audio fmt w =
     (let w1 = w\<lparr>write_count := Suc (write_count w)\<rparr>
      in if write_fails e (write_count w) fmt p \<or> os_path_isdir (fs w) p then (Inl IOError, w1)
         else (Inr (), put_file p (Wav audio) w1))"

text \<open>\<^verbatim>\<open>save_audio\<close>: a failed write is tried once more as WAV under the fallback path.\<close>

definition save_audio ::
  "env \<Rightarrow> tensor \<Rightarrow> string \<Rightarrow> string \<Rightarrow> world \<Rightarrow> (error + string) \<times> world" where
  "save_audio e audio_data_numpy p fmt w =
     (case sf_write e p audio_data_numpy (upper fmt) w of
        (Inr u, w') \<Rightarrow> (Inr p, w')
      | (Inl x, w') \<Rightarrow>
          (let fallback_path = rsplit_dot_head p @ ''.wav''
           in case sf_write e fallback_path audio_data_numpy ''WAV'' w' of
                (Inl y, w'') \<Rightarrow> (Inl y, w'')
              | (Inr u, w'') \<Rightarrow> (Inr fallback_path, w'')))"

text \<open>
  The \<^verbatim>\<open>for\<close> loop of \<^verbatim>\<open>synthesize\<close> over the enumerated results of the pipeline; the
  two accumulators are \<^verbatim>\<open>synthesis_result_list\<close> and \<^verbatim>\<open>all_audio_tensors\<close>.  An
  exception of \<^verbatim>\<open>save_audio\<close> ends the loop; the files written before it stay.
\<close>

fun synth_loop ::
  "env \<Rightarrow> string \<Rightarrow> string \<Rightarrow> nat \<Rightarrow> segment list \<Rightarrow> chunk list \<Rightarrow> tensor list \<Rightarrow> world
     \<Rightarrow> (error + chunk list \<times> tensor list) \<times> world" where
  "synth_loop e tdir ts chunk_index [] synthesis_result_list all_audio_tensors w =
     (Inr (synthesis_result_list, all_audio_tensors), w)"
| "synth_loop e tdir ts chunk_index ((gs, ps, audio_tensor) # rest)
       synthesis_result_list all_audio_tensors w =
     (case audio_tensor of
        None \<Rightarrow>
          synth_loop e tdir ts (Suc chunk_index) rest synthesis_result_list all_audio_tensors w
      | Some audio \<Rightarrow>
          (let chunk_filepath =
                 os_path_join tdir (''chunk_'' @ ts @ ''_'' @ str_nat chunk_index @ ''.wav'')
           in case save_audio e audio chunk_filepath ''WAV'' w of
                (Inl x, w') \<Rightarrow> (Inl x, w')
              | (Inr r, w') \<Rightarrow>
                  synth_loop e tdir ts (Suc chunk_index) rest
                    (synthesis_result_list @ [(gs, ps, audio, chunk_filepath)])
                    (all_audio_tensors @ [audio]) w'))"

text \<open>
  \<^verbatim>\<open>KokoroTTSWrapper.synthesize\<close>.  The handler of its \<^verbatim>\<open>try\<close> logs and raises the same
  exception again, so an exception of any step is the result.  The pipeline is the
  oracle \<open>raw_synthesis\<close>, a finite sequence of segments.
\<close>

definition synthesize ::
  "env \<Rightarrow> tts_wrapper \<Rightarrow> string \<Rightarrow> real \<Rightarrow> string \<Rightarrow> world
     \<Rightarrow> (error + chunk list \<times> string option) \<times> tts_wrapper \<times> world" where
  "synthesize e self text speed selected_voice w =
     (let ts = strftime e (clock w);
          self' = self\<lparr>last_synthesis_timestamp := Some ts\<rparr>
      in case load_voice e selected_voice (tts_device self) w of
           (Inl x, w1) \<Rightarrow> (Inl x, self', w1)
         | (Inr v, w1) \<Rightarrow>
             (let generator = raw_synthesis e text (''voices/'' @ selected_voice @ ''.pt'')
                                speed (split_pattern self)
              in case synth_loop e (temp_dir self) ts 0 generator [] [] w1 of
                   (Inl x, w2) \<Rightarrow> (Inl x, self', w2)
                 | (Inr (synthesis_result_list, all_audio_tensors), w2) \<Rightarrow>
                     if all_audio_tensors \<noteq> []
                     then (let combined_audio_tensor = concat all_audio_tensors;
                               combined_filepath =
                                 os_path_join (temp_dir self) (''combined_'' @ ts @ ''.wav'')
                           in case save_audio e combined_audio_tensor combined_filepath
                                     ''WAV'' w2 of
                                (Inl x, w3) \<Rightarrow> (Inl x, self', w3)
                              | (Inr r, w3) \<Rightarrow>
                                  (Inr (synthesis_result_list, Some combined_filepath),
                                   self', w3))
                     else (Inr ([], None), self', w2)))"

subsection \<open>JSON text (\<^verbatim>\<open>json.dump\<close> and \<^verbatim>\<open>json.load\<close> of the standard library)\<close>

text \<open>
  The two library calls of \<^verbatim>\<open>persistence.py\<close>, for the values the ledger holds: a list
  of dictionaries with the keys \<^verbatim>\<open>timestamp\<close> (a float), \<^verbatim>\<open>chunks\<close> (a list of
  dictionaries with the keys \<^verbatim>\<open>graphemes\<close>, \<^verbatim>\<open>phonemes\<close> and \<^verbatim>\<open>filepath\<close>, all strings)
  and \<^verbatim>\<open>combined\<close> (a string).  The library is not part of the repository; the
  definitions follow its encoder and decoder as CPython implements them.

  The encoder.  A string is written between double quotes; with \<^verbatim>\<open>ensure_ascii\<close>, the
  default, the quote, the backslash and the control characters with a short form are
  written with a backslash, every other character outside the range from space to
  \<^verbatim>\<open>~\<close> as \<^verbatim>\<open>\u00XX\<close> in lower-case hexadecimal digits, and the rest as it is.
\<close>

definition hex_digit :: "nat \<Rightarrow> char" where
  "hex_digit d = char_of (if d < 10 then 48 + d else 87 + d)"

definition escape_char :: "char \<Rightarrow> string" where
  "escape_char c =
     (if c = CHR 0x22 then [CHR 0x5C, CHR 0x22]
      else if c = CHR 0x5C then [CHR 0x5C, CHR 0x5C]
      else if c = CHR 0x0A then [CHR 0x5C, CHR ''n'']
      else if c = CHR 0x0D then [CHR 0x5C, CHR ''r'']
      else if c = CHR 0x09 then [CHR 0x5C, CHR ''t'']
      else if c = CHR 0x08 then [CHR 0x5C, CHR ''b'']
      else if c = CHR 0x0C then [CHR 0x5C, CHR ''f'']
      else if 0x20 \<le> (of_char c :: nat) \<and> (of_char c :: nat) \<le> 0x7E then [c]
      else [CHR 0x5C, CHR ''u'', CHR ''0'', CHR ''0'',
            hex_digit ((of_char c :: nat) div 16), hex_digit ((of_char c :: nat) mod 16)])"

definition encode_str :: "string \<Rightarrow> string" where
  "encode_str s = CHR 0x22 # concat (map escape_char s) @ [CHR 0x22]"

text \<open>
  With \<^verbatim>\<open>indent=2\<close> an empty list is \<^verbatim>\<open>[]\<close>; the items of any other list stand on lines
  of their own, two spaces deeper than the list, with a comma after every item but the
  last, and the closing bracket stands on a line of its own at the depth of the list.
  A dictionary is written in the same way between braces, every item as its key, a
  colon, a space and its value, in the order of insertion.
\<close>

definition newline_indent :: "nat \<Rightarrow> string" where
  "newline_indent level = CHR 0x0A # replicate (2 * level) CHR '' ''"

definition encode_seq :: "char \<Rightarrow> char \<Rightarrow> nat \<Rightarrow> string list \<Rightarrow> string" where
  "encode_seq opn cls level items =
     (case items of
        [] \<Rightarrow> [opn, cls]
      | x # xs \<Rightarrow>
          opn # newline_indent (Suc level) @ x
            @ concat (map (\<lambda>y. CHR '','' # newline_indent (Suc level) @ y) xs)
            @ newline_indent level @ [cls])"

definition encode_list :: "nat \<Rightarrow> string list \<Rightarrow> string" where
  "encode_list = encode_seq CHR ''['' CHR '']''"

definition encode_item :: "('v \<Rightarrow> string) \<Rightarrow> string \<times> 'v \<Rightarrow> string" where
  "encode_item enc kv = encode_str (fst kv) @ '': '' @ enc (snd kv)"

definition encode_dict :: "('v \<Rightarrow> string) \<Rightarrow> nat \<Rightarrow> (string \<times> 'v) list \<Rightarrow> string" where
  "encode_dict enc level items = encode_seq CHR ''{'' CHR ''}'' level (map (encode_item enc) items)"

text \<open>
  The dictionaries of the ledger as lists of items, in the order in which \<^verbatim>\<open>run_synthesis\<close>
  inserts the keys.  A value of a generation is a number, a string or a list of chunks.
\<close>

datatype field = FNum real | FStr string | FChunks "chunk_meta list"

definition chunk_dict :: "chunk_meta \<Rightarrow> (string \<times> string) list" where
  "chunk_dict c = [(''graphemes'', graphemes c), (''phonemes'', phonemes c),
                   (''filepath'', filepath c)]"

definition generation_dict :: "generation \<Rightarrow> (string \<times> field) list" where
  "generation_dict g = [(''timestamp'', FNum (timestamp g)), (''chunks'', FChunks (chunks g)),
                        (''combined'', FStr (combined g))]"

definition encode_chunk :: "nat \<Rightarrow> chunk_meta \<Rightarrow> string" where
  "encode_chunk level c = encode_dict encode_str level (chunk_dict c)"

fun encode_field :: "env \<Rightarrow> nat \<Rightarrow> field \<Rightarrow> string" where
  "encode_field e level (FNum x) = float_repr e x"
| "encode_field e level (FStr s) = encode_str s"
| "encode_field e level (FChunks cs) = encode_list level (map (encode_chunk (Suc level)) cs)"

definition encode_generation :: "env \<Rightarrow> nat \<Rightarrow> generation \<Rightarrow> string" where
  "encode_generation e level g =
     encode_dict (encode_field e (Suc level)) level (generation_dict g)"

text \<open>\<^verbatim>\<open>json.dump(generations, f, indent=2)\<close>: the text written to the file.\<close>

definition json_dumps :: "env \<Rightarrow> generation list \<Rightarrow> string" where
  "json_dumps e generations = encode_list 0 (map (encode_generation e 1) generations)"

text \<open>
  The decoder.  White space is space, tab, line feed and carriage return.  A string
  starts after a double quote and ends at the next one that is not escaped; a control
  character in it is an error, a backslash is followed by one of the characters
  \<^verbatim>\<open>"\/bfnrt\<close> or by \<^verbatim>\<open>u\<close> and four hexadecimal digits; a code point of 256 or more is
  outside the model, and \<open>None\<close> here.
\<close>

definition is_ws :: "char \<Rightarrow> bool" where
  "is_ws c = (c = CHR '' '' \<or> c = CHR 0x09 \<or> c = CHR 0x0A \<or> c = CHR 0x0D)"

definition skip_ws :: "string \<Rightarrow> string" where
  "skip_ws s = dropWhile is_ws s"

definition hex_val :: "char \<Rightarrow> nat option" where
  "hex_val c =
     (let n = (of_char c :: nat)
      in if 48 \<le> n \<and> n \<le> 57 then Some (n - 48)
         else if 97 \<le> n \<and> n \<le> 102 then Some (n - 87)
         else if 65 \<le> n \<and> n \<le> 70 then Some (n - 55)
         else None)"

definition unescape :: "char \<Rightarrow> char option" where
  "unescape c =
     (if c = CHR 0x22 then Some (CHR 0x22)
      else if c = CHR 0x5C then Some (CHR 0x5C)
      else if c = CHR ''/'' then Some (CHR ''/'')
      else if c = CHR ''b'' then Some (CHR 0x08)
      else if c = CHR ''f'' then Some (CHR 0x0C)
      else if c = CHR ''n'' then Some (CHR 0x0A)
      else if c = CHR ''r'' then Some (CHR 0x0D)
      else if c = CHR ''t'' then Some (CHR 0x09)
      else None)"

datatype scan_state = Plain | Escape | Unicode "nat list"

fun scanstring :: "scan_state \<Rightarrow> string \<Rightarrow> string \<Rightarrow> (string \<times> string) option" where
  "scanstring st acc [] = None"
| "scanstring Plain acc (c # cs) =
     (if c = CHR 0x22 then Some (acc, cs)
      else if c = CHR 0x5C then scanstring Escape acc cs
      else if (of_char c :: nat) < 0x20 then None
      else scanstring Plain (acc @ [c]) cs)"
| "scanstring Escape acc (c # cs) =
     (if c = CHR ''u'' then scanstring (Unicode []) acc cs
      else (case unescape c of
              None \<Rightarrow> None
            | Some d \<Rightarrow> scanstring Plain (acc @ [d]) cs))"
| "scanstring (Unicode ds) acc (c # cs) =
     (case hex_val c of
        None \<Rightarrow> None
      | Some d \<Rightarrow>
          if length ds < 3 then scanstring (Unicode (ds @ [d])) acc cs
          else (let n = foldl (\<lambda>a d. 16 * a + d) 0 (ds @ [d])
                in if n < 256 then scanstring Plain (acc @ [char_of n]) cs else None))"

definition parse_str :: "string \<Rightarrow> (string \<times> string) option" where
  "parse_str s = (case s of [] \<Rightarrow> None
                  | c # cs \<Rightarrow> if c = CHR 0x22 then scanstring Plain [] cs else None)"

text \<open>
  A number: the longest run of the characters a JSON number is made of, read by
  \<open>float_parse\<close>.  The literals \<^verbatim>\<open>NaN\<close> and \<^verbatim>\<open>Infinity\<close>, which the library writes for
  floats that are not finite, are not numbers here.
\<close>

definition is_num_char :: "char \<Rightarrow> bool" where
  "is_num_char c = (c \<in> set ''0123456789+-.eE'')"

definition parse_number :: "env \<Rightarrow> string \<Rightarrow> (real \<times> string) option" where
  "parse_number e s =
     (if takeWhile is_num_char s = [] then None
      else (case float_parse e (takeWhile is_num_char s) of
              None \<Rightarrow> None
            | Some x \<Rightarrow> Some (x, dropWhile is_num_char s)))"

text \<open>
  A list or a dictionary: the opening bracket, white space, then the closing bracket or
  an item; after every item white space and either the closing bracket or a comma, white
  space and the next item.  Every turn of the loop takes at least the comma from the
  text, so the length of the text bounds the number of turns.
\<close>

fun parse_items ::
  "nat \<Rightarrow> char \<Rightarrow> (string \<Rightarrow> ('a \<times> string) option) \<Rightarrow> 'a list \<Rightarrow> string
     \<Rightarrow> ('a list \<times> string) option" where
  "parse_items 0 cls p acc s = None"
| "parse_items (Suc fuel) cls p acc s =
     (case skip_ws s of
        [] \<Rightarrow> None
      | c # r \<Rightarrow>
          if c = cls then Some (acc, r)
          else if c = CHR '','' then
            (case p (skip_ws r) of
               None \<Rightarrow> None
             | Some (x, r') \<Rightarrow> parse_items fuel cls p (acc @ [x]) r')
          else None)"

definition parse_seq ::
  "char \<Rightarrow> char \<Rightarrow> (string \<Rightarrow> ('a \<times> string) option) \<Rightarrow> string
     \<Rightarrow> ('a list \<times> string) option" where
  "parse_seq opn cls p s =
     (case s of
        [] \<Rightarrow> None
      | c # s1 \<Rightarrow>
          if c \<noteq> opn then None
          else (case skip_ws s1 of
                  [] \<Rightarrow> None
                | d # r \<Rightarrow>
                    if d = cls then Some ([], r)
                    else (case p (skip_ws s1) of
                            None \<Rightarrow> None
                          | Some (x, r') \<Rightarrow> parse_items (Suc (length r')) cls p [x] r')))"

text \<open>An item of a dictionary: a string, white space, a colon, white space, a value.\<close>

definition parse_item ::
  "(string \<Rightarrow> ('v \<times> string) option) \<Rightarrow> string \<Rightarrow> ((string \<times> 'v) \<times> string) option" where
  "parse_item pv s =
     (case parse_str s of
        None \<Rightarrow> None
      | Some (k, r) \<Rightarrow>
          (case skip_ws r of
             [] \<Rightarrow> None
           | c # r1 \<Rightarrow>
               if c = CHR '':'' then
                 (case pv (skip_ws r1) of
                    None \<Rightarrow> None
                  | Some (v, r2) \<Rightarrow> Some ((k, v), r2))
               else None))"

definition parse_dict ::
  "(string \<Rightarrow> ('v \<times> string) option) \<Rightarrow> string \<Rightarrow> ((string \<times> 'v) list \<times> string) option" where
  "parse_dict pv = parse_seq CHR ''{'' CHR ''}'' (parse_item pv)"

text \<open>
  The dictionary built from the items that were read: of two items with the same key the
  later one counts.  A dictionary is a chunk, or a generation, when it has exactly the
  keys of one, with values of the right kind.
\<close>

definition dict_get :: "(string \<times> 'v) list \<Rightarrow> string \<Rightarrow> 'v option" where
  "dict_get items k = map_of (rev items) k"

definition chunk_of_dict :: "(string \<times> string) list \<Rightarrow> chunk_meta option" where
  "chunk_of_dict items =
     (if set (map fst items) = {''graphemes'', ''phonemes'', ''filepath''}
      then (case (dict_get items ''graphemes'', dict_get items ''phonemes'',
                  dict_get items ''filepath'') of
              (Some g, Some p, Some f) \<Rightarrow> Some \<lparr>graphemes = g, phonemes = p, filepath = f\<rparr>
            | _ \<Rightarrow> None)
      else None)"

definition parse_chunk :: "string \<Rightarrow> (chunk_meta \<times> string) option" where
  "parse_chunk s =
     (case parse_dict parse_str s of
        None \<Rightarrow> None
      | Some (items, r) \<Rightarrow>
          (case chunk_of_dict items of None \<Rightarrow> None | Some c \<Rightarrow> Some (c, r)))"

definition parse_field :: "env \<Rightarrow> string \<Rightarrow> (field \<times> string) option" where
  "parse_field e s =
     (case s of
        [] \<Rightarrow> None
      | c # cs \<Rightarrow>
          if c = CHR 0x22 then map_option (\<lambda>(x, r). (FStr x, r)) (parse_str s)
          else if c = CHR ''['' then
            map_option (\<lambda>(x, r). (FChunks x, r)) (parse_seq CHR ''['' CHR '']'' parse_chunk s)
          else map_option (\<lambda>(x, r). (FNum x, r)) (parse_number e s))"

definition generation_of_dict :: "(string \<times> field) list \<Rightarrow> generation option" where
  "generation_of_dict items =
     (if set (map fst items) = {''timestamp'', ''chunks'', ''combined''}
      then (case (dict_get items ''timestamp'', dict_get items ''chunks'',
                  dict_get items ''combined'') of
              (Some (FNum t), Some (FChunks cs), Some (FStr c)) \<Rightarrow>
                Some \<lparr>timestamp = t, chunks = cs, combined = c\<rparr>
            | _ \<Rightarrow> None)
      else None)"

definition parse_generation :: "env \<Rightarrow> string \<Rightarrow> (generation \<times> string) option" where
  "parse_generation e s =
     (case parse_dict (parse_field e) s of
        None \<Rightarrow> None
      | Some (items, r) \<Rightarrow>
          (case generation_of_dict items of None \<Rightarrow> None | Some g \<Rightarrow> Some (g, r)))"

text \<open>
  \<^verbatim>\<open>json.load(f)\<close> on the text of the file: white space, one value, white space, and the
  end of the text.  The result is \<open>None\<close> when the library raises, and also for a text
  that is JSON but not a list of generations, for which the library returns a value of
  another shape.  \<^verbatim>\<open>patch_json_load\<close> of \<^verbatim>\<open>models.py\<close> replaces \<^verbatim>\<open>json.load\<close> by a function
  that decodes the bytes of the file as UTF-8 and calls \<^verbatim>\<open>json.loads\<close>, with the same
  result.
\<close>

definition json_loads :: "env \<Rightarrow> string \<Rightarrow> generation list option" where
  "json_loads e s =
     (case parse_seq CHR ''['' CHR '']'' (parse_generation e) (skip_ws s) of
        None \<Rightarrow> None
      | Some (gens, r) \<Rightarrow> if skip_ws r = [] then Some gens else None)"

subsection \<open>The ledger file (\<^verbatim>\<open>persistence.py\<close>)\<close>

text \<open>
  \<^verbatim>\<open>load_generations\<close>: what the file holds, and the empty list when the file is
  missing or when opening, decoding or parsing it raises.
\<close>

definition load_generations :: "env \<Rightarrow> string \<Rightarrow> world \<Rightarrow> generation list" where
  "load_generations e file_path w =
     (if os_path_exists (fs w) file_path
      then (case lookup (fs w) file_path of
              Some (File t (Text s)) \<Rightarrow>
                (case json_loads e s of Some gens \<Rightarrow> gens | None \<Rightarrow> [])
            | _ \<Rightarrow> [])
      else [])"

text \<open>
  \<^verbatim>\<open>save_generations\<close>: the whole file is rewritten; when the file cannot be opened for
  writing the error is printed and nothing is written.  A write that fails after the
  file was opened, and leaves a shortened file, is outside the model.
\<close>

definition save_generations :: "env \<Rightarrow> string \<Rightarrow> generation list \<Rightarrow> world \<Rightarrow> world" where
  "save_generations e file_path generations w =
     (if open_w_fails e file_path \<or> os_path_isdir (fs w) file_path then w
      else put_file file_path (Text (json_dumps e generations)) w)"

subsection \<open>The reaper (\<^verbatim>\<open>temp_cleanup.py\<close>)\<close>

text \<open>
  The loop of \<^verbatim>\<open>cleanup_temp_files\<close> over the listing: a regular file named
  \<^verbatim>\<open>chunk_...\<close> whose age is greater than the retention is removed; an exception of
  \<^verbatim>\<open>os.remove\<close> is printed and the loop goes on.
\<close>

fun cleanup_loop ::
  "env \<Rightarrow> string \<Rightarrow> real \<Rightarrow> real \<Rightarrow> string list \<Rightarrow> world \<Rightarrow> (error + unit) \<times> world" where
  "cleanup_loop e tdir now retention_seconds [] w = (Inr (), w)"
| "cleanup_loop e tdir now retention_seconds (filename # rest) w =
     (let p = os_path_join tdir filename
      in if os_path_isfile (fs w) p \<and> startswith filename ''chunk_''
         then (case os_path_getmtime (fs w) p of
                 Inl x \<Rightarrow> (Inl x, w)
               | Inr m \<Rightarrow>
                   (let file_age = now - m
                    in if file_age > retention_seconds
                       then (case os_remove e p w of
                               (Inl x, w') \<Rightarrow>
                                 cleanup_loop e tdir now retention_seconds rest w'
                             | (Inr u, w') \<Rightarrow>
                                 cleanup_loop e tdir now retention_seconds rest w')
                       else cleanup_loop e tdir now retention_seconds rest w))
         else cleanup_loop e tdir now retention_seconds rest w)"

text \<open>
  \<^verbatim>\<open>cleanup_temp_files\<close>: nothing to do when the directory does not exist; the current
  time is read once, before the loop.
\<close>

definition cleanup_temp_files ::
  "env \<Rightarrow> string \<Rightarrow> real \<Rightarrow> world \<Rightarrow> (error + unit) \<times> world" where
  "cleanup_temp_files e tdir retention_days w =
     (let now = clock w;
          retention_seconds = retention_days * 86400
      in if \<not> os_path_exists (fs w) tdir then (Inr (), w)
         else (case os_listdir (fs w) tdir of
                 Inl x \<Rightarrow> (Inl x, w)
               | Inr names \<Rightarrow> cleanup_loop e tdir now retention_seconds names w))"

subsection \<open>The main window (\<^verbatim>\<open>ui_main.py\<close>)\<close>

text \<open>
  Calls queued for the thread of the user interface (\<^verbatim>\<open>QMetaObject.invokeMethod\<close> with
  \<^verbatim>\<open>Qt.QueuedConnection\<close>, and the signal \<^verbatim>\<open>synthesis_finished_signal\<close> emitted by the
  worker), and the worker threads that were started and have not run yet.
\<close>

datatype ui_event =
    UpdateStatusMessage string int
  | UpdateGenerationTime real
  | WaveformSetFile string
  | PopulateResultsTable
  | SynthButtonSetEnabled bool

datatype worker = RunSynthesis string string real

datatype table_row =
    ChunkRow nat nat string string string
  | CombinedRow nat string

record window =
  text_edit :: string
  voice_combo :: string
  speed_spin :: real
  synth_button_enabled :: bool
  status_message :: "string \<times> int"
  generation_label :: "real option"
  results_table :: "table_row list"
  error_dialogs :: "error list"
  waveform_file :: "string option"
  synthesis_results :: "generation list"
  current_filepath :: "string option"
  tts :: tts_wrapper
  event_queue :: "ui_event list"
  threads :: "worker list"

definition PERSIST_FILE :: string where
  "PERSIST_FILE = os_path_join ''outputs'' ''generations.json''"

definition invoke_queued :: "ui_event \<Rightarrow> window \<Rightarrow> window" where
  "invoke_queued ev win = win\<lparr>event_queue := event_queue win @ [ev]\<rparr>"

text \<open>\<^verbatim>\<open>MyTTSMainWindow.save_generations\<close>.\<close>

definition window_save_generations :: "env \<Rightarrow> window \<Rightarrow> world \<Rightarrow> world" where
  "window_save_generations e win w = save_generations e PERSIST_FILE (synthesis_results win) w"

text \<open>
  \<^verbatim>\<open>populate_results_table\<close>: per generation (numbered from 1) one row per chunk, if it
  has chunks, and one row for the combined file, if it names one.
\<close>

definition generation_rows :: "nat \<Rightarrow> generation \<Rightarrow> table_row list" where
  "generation_rows gen_idx gen =
     (if chunks gen \<noteq> []
      then map (\<lambda>(i, c). ChunkRow gen_idx i (graphemes c) (phonemes c) (filepath c))
             (zip [0 ..< length (chunks gen)] (chunks gen))
      else [])
     @ (if combined gen \<noteq> [] then [CombinedRow gen_idx (combined gen)] else [])"

definition populate_results_table :: "window \<Rightarrow> window" where
  "populate_results_table win =
     win\<lparr>results_table :=
           concat (map (\<lambda>(gen_idx, gen). generation_rows gen_idx gen)
                     (zip [1 ..< Suc (length (synthesis_results win))]
                          (synthesis_results win)))\<rparr>"

text \<open>
  \<^verbatim>\<open>clear_temp_files\<close>: every entry of the temporary directory named \<^verbatim>\<open>chunk_...\<close> is
  removed (a failure is logged), then every generation loses its chunk list, the ledger
  is saved and the table is filled again.  \<^verbatim>\<open>os.listdir\<close> is outside the \<^verbatim>\<open>try\<close>.
\<close>

fun remove_chunk_files :: "env \<Rightarrow> string \<Rightarrow> string list \<Rightarrow> world \<Rightarrow> world" where
  "remove_chunk_files e tdir [] w = w"
| "remove_chunk_files e tdir (filename # rest) w =
     (if startswith filename ''chunk_''
      then (case os_remove e (os_path_join tdir filename) w of
              (Inl x, w') \<Rightarrow> remove_chunk_files e tdir rest w'
            | (Inr u, w') \<Rightarrow> remove_chunk_files e tdir rest w')
      else remove_chunk_files e tdir rest w)"

definition clear_temp_files :: "env \<Rightarrow> window \<times> world \<Rightarrow> (error + unit) \<times> window \<times> world" where
  "clear_temp_files e st =
     (case st of (win, w) \<Rightarrow>
        (case os_listdir (fs w) (temp_dir (tts win)) of
           Inl x \<Rightarrow> (Inl x, win, w)
         | Inr names \<Rightarrow>
             (let w1 = remove_chunk_files e (temp_dir (tts win)) names w;
                  win1 = win\<lparr>synthesis_results :=
                               map (\<lambda>gen. gen\<lparr>chunks := []\<rparr>) (synthesis_results win)\<rparr>;
                  w2 = window_save_generations e win1 w1;
                  win2 = populate_results_table win1
              in (Inr (),
                  invoke_queued (UpdateStatusMessage ''Temporary files cleared.'' 2000) win2,
                  w2))))"

text \<open>
  \<^verbatim>\<open>on_synthesize_clicked\<close>, up to the start of the worker thread: the closure
  \<^verbatim>\<open>run_synthesis\<close> with the text, voice and speed it captured is added to \<open>threads\<close>.
\<close>

definition on_synthesize_clicked :: "window \<Rightarrow> window" where
  "on_synthesize_clicked win =
     (let text = strip (text_edit win)
      in if text = [] then win
         else (let win1 = win\<lparr>synth_button_enabled := False\<rparr>;
                   win2 = invoke_queued (UpdateStatusMessage ''Synthesizing...'' 0) win1;
                   v = voice_combo win2;
                   v' = (if strip v = [] then ''af_bella'' else v);
                   speed = speed_spin win2
               in win2\<lparr>threads := threads win2 @ [RunSynthesis text v' speed]\<rparr>))"

text \<open>
  The truth value of the pair that \<^verbatim>\<open>synthesize\<close> returns, as \<^verbatim>\<open>if results:\<close> tests it:
  a tuple is true when its length is not zero, and this one has length two.
\<close>

definition tuple_truthy :: "'a \<times> 'b \<Rightarrow> bool" where
  "tuple_truthy results = ((2::nat) \<noteq> 0)"

definition chunk_to_meta :: "chunk \<Rightarrow> chunk_meta" where
  "chunk_to_meta c =
     (case c of (gs, ps, audio, p) \<Rightarrow> \<lparr>graphemes = gs, phonemes = ps, filepath = p\<rparr>)"

text \<open>The value \<^verbatim>\<open>combined_path if combined_path and os.path.exists(combined_path) else ""\<close>.\<close>

definition combined_field :: "filesystem \<Rightarrow> string option \<Rightarrow> string" where
  "combined_field f combined_path =
     (case combined_path of
        None \<Rightarrow> []
      | Some p \<Rightarrow> if p \<noteq> [] \<and> os_path_exists f p then p else [])"

text \<open>
  The worker \<^verbatim>\<open>run_synthesis\<close>, run as one step.  The record is built completely
  before it is appended to \<^verbatim>\<open>self.synthesis_results\<close>; the \<^verbatim>\<open>finally\<close> clause queues
  the call that enables the button again after either branch.
\<close>

definition run_synthesis ::
  "env \<Rightarrow> string \<Rightarrow> string \<Rightarrow> real \<Rightarrow> window \<times> world \<Rightarrow> window \<times> world" where
  "run_synthesis e text v speed st =
     (case st of (win, w) \<Rightarrow>
        (let start_time = clock w;
             body =
               (case synthesize e (tts win) text speed v w of
                  (Inr results, self', w1) \<Rightarrow>
                    (let win1 = win\<lparr>tts := self'\<rparr>;
                         (win2, w2) =
                           (if tuple_truthy results
                            then (case results of
                                    (chunk_list, combined_path) \<Rightarrow>
                                      (let gen = \<lparr>timestamp = clock w1,
                                                  chunks = map chunk_to_meta chunk_list,
                                                  combined = combined_field (fs w1) combined_path\<rparr>;
                                           win' = win1\<lparr>synthesis_results :=
                                                         synthesis_results win1 @ [gen]\<rparr>
                                       in (win', window_save_generations e win' w1)))
                            else (win1, w1));
                         elapsed = clock w2 - start_time;
                         win3 = invoke_queued (UpdateGenerationTime elapsed) win2;
                         win4 =
                           (case snd results of
                              Some p \<Rightarrow>
                                if tuple_truthy results \<and> p \<noteq> []
                                then (invoke_queued (WaveformSetFile p) win3)
                                       \<lparr>current_filepath := Some p\<rparr>
                                else win3
                            | None \<Rightarrow> win3);
                         win5 = invoke_queued PopulateResultsTable win4
                     in (invoke_queued (UpdateStatusMessage ''Synthesis complete.'' 2000) win5,
                         w2))
                | (Inl x, self', w1) \<Rightarrow>
                    (let win1 = win\<lparr>tts := self'\<rparr>;
                         win2 = invoke_queued (UpdateStatusMessage ''Synthesis error.'' 2000) win1
                     in (win2\<lparr>error_dialogs := error_dialogs win2 @ [x]\<rparr>, w1)))
         in case body of
              (win', w') \<Rightarrow> (invoke_queued (SynthButtonSetEnabled True) win', w')))"

text \<open>Running the oldest started worker thread.\<close>

definition run_next_thread :: "env \<Rightarrow> window \<times> world \<Rightarrow> window \<times> world" where
  "run_next_thread e st =
     (case st of (win, w) \<Rightarrow>
        (case threads win of
           [] \<Rightarrow> (win, w)
         | RunSynthesis text v speed # rest \<Rightarrow>
             run_synthesis e text v speed (win\<lparr>threads := rest\<rparr>, w)))"

text \<open>The slots that queued calls reach, and the event loop taking the queue in order.\<close>

definition dispatch :: "ui_event \<Rightarrow> window \<Rightarrow> window" where
  "dispatch ev win =
     (case ev of
        UpdateStatusMessage msg timeout \<Rightarrow> win\<lparr>status_message := (msg, timeout)\<rparr>
      | UpdateGenerationTime elapsed \<Rightarrow> win\<lparr>generation_label := Some elapsed\<rparr>
      | WaveformSetFile p \<Rightarrow> win\<lparr>waveform_file := Some p\<rparr>
      | PopulateResultsTable \<Rightarrow> populate_results_table win
      | SynthButtonSetEnabled b \<Rightarrow> win\<lparr>synth_button_enabled := b\<rparr>)"

definition process_events :: "window \<Rightarrow> window" where
  "process_events win = fold dispatch (event_queue win) (win\<lparr>event_queue := []\<rparr>)"

section \<open>Properties and concrete instances\<close>

subsection \<open>Notions used to state the properties\<close>

text \<open>The segments of a pipeline result that carry audio (\<^verbatim>\<open>audio_tensor is not None\<close>).\<close>

definition nonempty_segments :: "segment list \<Rightarrow> segment list" where
  "nonempty_segments segs = filter (\<lambda>seg. snd (snd seg) \<noteq> None) segs"

text \<open>The segment a returned chunk was made from.\<close>

definition chunk_segment :: "chunk \<Rightarrow> segment" where
  "chunk_segment c = (case c of (gs, ps, audio, p) \<Rightarrow> (gs, ps, Some audio))"

text \<open>
  From world \<open>w\<close> to world \<open>w'\<close> the download log only grew, and every file fetched on
  the way was missing in \<open>w\<close> (all downloads of the sources go to the directory \<^verbatim>\<open>.\<close>).
\<close>

definition fetches_only_missing :: "world \<Rightarrow> world \<Rightarrow> bool" where
  "fetches_only_missing w w' =
     (take (length (fetch_log w)) (fetch_log w') = fetch_log w \<and>
      list_all (\<lambda>f. \<not> os_path_exists (fs w) (os_path_join ''.'' f))
        (drop (length (fetch_log w)) (fetch_log w')))"

definition grows :: "world \<Rightarrow> world \<Rightarrow> bool" where
  "grows w w' =
     (fetches_only_missing w w' \<and>
      (\<forall>q. os_path_exists (fs w) q \<longrightarrow> os_path_exists (fs w') q))"

text \<open>
  The reaper removes the entry \<open>filename\<close> of the temporary directory: a regular file
  named \<^verbatim>\<open>chunk_...\<close>, older than the retention, whose removal the system does not refuse.
\<close>

definition doomed :: "env \<Rightarrow> string \<Rightarrow> real \<Rightarrow> real \<Rightarrow> world \<Rightarrow> string \<Rightarrow> bool" where
  "doomed e tdir now retention_seconds w filename =
     (startswith filename ''chunk_''
      \<and> (case lookup (fs w) (os_path_join tdir filename) of
            Some (File m c) \<Rightarrow> now - m > retention_seconds
          | _ \<Rightarrow> False)
      \<and> \<not> remove_fails e (os_path_join tdir filename))"

text \<open>
  A float that the ledger file can hold: \<^verbatim>\<open>float.__repr__\<close> prints it as the text of a
  number, and the decoder reads that text as the same float.  This is so for every
  finite Python float; NaN and the infinities are printed as \<^verbatim>\<open>NaN\<close> and \<^verbatim>\<open>Infinity\<close>.
  A list of generations is well formed when its time stamps are such floats; the
  strings of its records are arbitrary.
\<close>

definition float_ok :: "env \<Rightarrow> real \<Rightarrow> bool" where
  "float_ok e x = (float_repr e x \<noteq> [] \<and> list_all is_num_char (float_repr e x)
                   \<and> float_parse e (float_repr e x) = Some x)"

definition well_formed :: "env \<Rightarrow> generation list \<Rightarrow> bool" where
  "well_formed e gens = list_all (\<lambda>g. float_ok e (timestamp g)) gens"

definition field_ok :: "env \<Rightarrow> field \<Rightarrow> bool" where
  "field_ok e f = (case f of FNum x \<Rightarrow> float_ok e x | _ \<Rightarrow> True)"

text \<open>
  What stands after an item in the text that the encoder writes, a comma or a line feed,
  and a text that starts with a character that is neither white space nor a given
  closing bracket.
\<close>

definition follow :: "string \<Rightarrow> bool" where
  "follow r = (case r of [] \<Rightarrow> False | c # r' \<Rightarrow> c = CHR '','' \<or> c = CHR 0x0A)"

definition token :: "char \<Rightarrow> string \<Rightarrow> bool" where
  "token cls s = (case s of [] \<Rightarrow> False | c # r \<Rightarrow> \<not> is_ws c \<and> c \<noteq> cls)"

text \<open>A decoder that gives back a rest no longer than the text it was given.\<close>

definition shrinks :: "(string \<Rightarrow> ('a \<times> string) option) \<Rightarrow> bool" where
  "shrinks p = (\<forall>s x r. p s = Some (x, r) \<longrightarrow> length r \<le> length s)"

subsection \<open>A concrete installation\<close>

text \<open>
  Floats that are whole numbers and not negative, as Python prints and reads them below
  ten to the power of 16: the decimal digits of the number, without leading zeros, and
  \<^verbatim>\<open>.0\<close>.  The concrete environment prints every float in this way, which is right for
  these floats only, and reads no other text as a number.
\<close>

definition is_digit :: "char \<Rightarrow> bool" where
  "is_digit c = (48 \<le> (of_char c :: nat) \<and> (of_char c :: nat) \<le> 57)"

definition nat_of_digits :: "string \<Rightarrow> nat" where
  "nat_of_digits ds = foldl (\<lambda>a c. 10 * a + ((of_char c :: nat) - 48)) 0 ds"

definition whole_repr :: "real \<Rightarrow> string" where
  "whole_repr x = str_nat (nat \<lfloor>x\<rfloor>) @ ''.0''"

definition whole_parse :: "string \<Rightarrow> real option" where
  "whole_parse s =
     (let ds = takeWhile is_digit s
      in if ds \<noteq> [] \<and> (ds = ''0'' \<or> hd ds \<noteq> CHR ''0'') \<and> dropWhile is_digit s = ''.0''
         then Some (real (nat_of_digits ds)) else None)"

text \<open>
  A ledger of one generation, an environment in which nothing fails, the pipeline yields
  one segment with audio and the floats are the whole numbers, variants of it, and a
  world holding the model, its configuration, the voice \<^verbatim>\<open>a\<close> and a temporary directory
  \<^verbatim>\<open>t\<close> with three files.
\<close>

definition gens0 :: "generation list" where
  "gens0 = [\<lparr>timestamp = 1000000,
             chunks = [\<lparr>graphemes = ''hi'', phonemes = ''ph'', filepath = ''t/chunk_T_0.wav''\<rparr>],
             combined = ''t/combined_T.wav''\<rparr>]"

definition env0 :: env where
  "env0 = \<lparr>write_fails = (\<lambda>n fmt p. False),
            open_w_fails = (\<lambda>p. False),
            remove_fails = (\<lambda>p. False),
            fetch_fails = (\<lambda>f. False),
            remote_content = (\<lambda>f. Blob f),
            kpipeline_fails = False,
            torch_load = (\<lambda>c. case c of Blob s \<Rightarrow> Inr (Some [0]) | _ \<Rightarrow> Inl UnpicklingError),
            raw_synthesis = (\<lambda>text v speed pat. [(text, ''ph'', Some [1 / 2])]),
            strftime = (\<lambda>t. ''T''),
            float_repr = whole_repr,
            float_parse = whole_parse\<rparr>"

definition env_silent :: env where
  "env_silent = env0\<lparr>raw_synthesis := (\<lambda>text v speed pat. [(text, ''ph'', None)])\<rparr>"

definition env_readonly :: env where
  "env_readonly = env0\<lparr>write_fails := (\<lambda>n fmt p. True)\<rparr>"

definition world0 :: world where
  "world0 = \<lparr>fs = [(''t'', Dir),
                   (''t/chunk_old.wav'', File 0 (Wav [0])),
                   (''t/chunk_new.wav'', File 999999 (Wav [0])),
                   (''t/combined_old.wav'', File 0 (Wav [0])),
                   (''voices/a.pt'', File 0 (Blob ''a'')),
                   (''kokoro-v1_0.pth'', File 0 (Blob ''m'')),
                   (''config.json'', File 0 (Text ''{}''))],
              clock = 1000000, fetch_log = [], write_count = 0, cached_pipeline = None\<rparr>"

definition wrapper0 :: tts_wrapper where
  "wrapper0 = \<lparr>output_dir = ''outputs'', temp_dir = ''t'', split_pattern = CHR 0x5C # ''n+'',
                model_path = ''kokoro-v1_0.pth'', tts_device = ''cpu'', voice = ''a'',
                last_synthesis_timestamp = None\<rparr>"

definition window0 :: window where
  "window0 = \<lparr>text_edit = ''hi'', voice_combo = ''a'', speed_spin = 1,
               synth_button_enabled = True, status_message = (''Ready'', 1000),
               generation_label = None, results_table = [], error_dialogs = [],
               waveform_file = None, synthesis_results = [], current_filepath = None,
               tts = wrapper0, event_queue = [], threads = []\<rparr>"

section \<open>Verified properties\<close>

subsection \<open>Files\<close>

lemma lookup_put_file:
  "lookup (fs (put_file p c w)) q =
     (if resolve q = resolve p then Some (File (clock w) c) else lookup (fs w) q)"
  by (simp add: lookup_def put_file_def update_conv')

lemma put_file_fields [simp]:
  "clock (put_file p c w) = clock w"
  "fetch_log (put_file p c w) = fetch_log w"
  "write_count (put_file p c w) = write_count w"
  "cached_pipeline (put_file p c w) = cached_pipeline w"
  by (simp_all add: put_file_def)

lemma exists_put_file:
  "os_path_exists (fs (put_file p c w)) q \<longleftrightarrow> resolve q = resolve p \<or> os_path_exists (fs w) q"
  by (simp add: os_path_exists_def lookup_put_file)

lemma isfile_put_file: "os_path_isfile (fs (put_file p c w)) p"
  by (simp add: os_path_isfile_def lookup_put_file)

lemma isfile_exists: "os_path_isfile f p \<Longrightarrow> os_path_exists f p"
  by (auto simp: os_path_isfile_def os_path_exists_def split: option.splits)

lemma lookup_delete:
  "lookup (AList.delete (resolve p) f) q = (if resolve q = resolve p then None else lookup f q)"
  by (simp add: lookup_def delete_conv')

lemma listdir_names:
  "os_listdir f d = Inr names \<Longrightarrow> n \<in> set names \<Longrightarrow> basename (resolve (os_path_join d n)) = n"
  by (auto simp: os_listdir_def split: if_splits)

text \<open>
  The directory listing is complete: an entry whose path is the directory joined with a
  name (a name is not empty and has no slash) is listed under that name.
\<close>

lemma resolve_no_slash: "CHR ''/'' \<notin> set n \<Longrightarrow> resolve n = n"
  by (induction n rule: resolve.induct) auto

lemma resolve_slash: "resolve (CHR ''/'' # n) = CHR ''/'' # n"
  by (cases n) auto

lemma resolve_dir_name:
  "CHR ''/'' \<notin> set n \<Longrightarrow> D = [] \<or> last D = CHR ''/'' \<Longrightarrow>
     \<exists>D2. resolve (D @ n) = D2 @ n \<and> (D2 = [] \<or> last D2 = CHR ''/'')"
proof (induction "length D" arbitrary: D rule: less_induct)
  case less
  show ?case
  proof (cases D)
    case Nil
    with less.prems show ?thesis by (simp add: resolve_no_slash)
  next
    case (Cons a D')
    show ?thesis
    proof (cases D')
      case Nil
      with Cons less.prems(2) have "D = [CHR ''/'']" by simp
      then have "resolve (D @ n) = D @ n" by (simp add: resolve_slash)
      with less.prems(2) show ?thesis by blast
    next
      case (Cons b p)
      note D = \<open>D = a # D'\<close> \<open>D' = b # p\<close>
      show ?thesis
      proof (cases "a = CHR ''.'' \<and> b = CHR ''/''")
        case True
        have "p = [] \<or> last p = CHR ''/''" using less.prems(2) D by (auto split: if_splits)
        moreover have "length p < length D" using D by simp
        ultimately obtain D2 where "resolve (p @ n) = D2 @ n" "D2 = [] \<or> last D2 = CHR ''/''"
          using less.hyps less.prems(1) by blast
        then show ?thesis using True D by auto
      next
        case False
        then have "resolve (D @ n) = D @ n" using D by auto
        with less.prems(2) show ?thesis by blast
      qed
    qed
  qed
qed

lemma basename_append:
  assumes "CHR ''/'' \<notin> set n" and "pre = [] \<or> last pre = CHR ''/''"
  shows "basename (pre @ n) = n"
proof -
  have "takeWhile (\<lambda>c. c \<noteq> CHR ''/'') (rev pre) = []"
    using assms(2) by (cases pre rule: rev_cases) auto
  moreover have "\<And>x. x \<in> set (rev n) \<Longrightarrow> x \<noteq> CHR ''/''" using assms(1) by auto
  ultimately have "takeWhile (\<lambda>c. c \<noteq> CHR ''/'') (rev n @ rev pre) = rev n"
    using takeWhile_append2 [of "rev n" "\<lambda>c. c \<noteq> CHR ''/''" "rev pre"] by simp
  then show ?thesis by (simp add: basename_def)
qed

lemma join_split:
  "CHR ''/'' \<notin> set n \<Longrightarrow> \<exists>D. os_path_join d n = D @ n \<and> (D = [] \<or> last D = CHR ''/'')"
  by (cases n) (auto simp: os_path_join_def startswith_def)

lemma basename_resolve_join:
  assumes "CHR ''/'' \<notin> set n"
  shows "basename (resolve (os_path_join d n)) = n"
proof -
  obtain D where D: "os_path_join d n = D @ n" "D = [] \<or> last D = CHR ''/''"
    using join_split [OF assms] by blast
  obtain D2 where "resolve (D @ n) = D2 @ n" "D2 = [] \<or> last D2 = CHR ''/''"
    using resolve_dir_name [OF assms D(2)] by blast
  with D(1) assms show ?thesis by (simp add: basename_append)
qed

lemma listdir_complete:
  assumes "os_path_isdir f d" and "n \<noteq> []" and "CHR ''/'' \<notin> set n"
    and "lookup f (os_path_join d n) = Some x"
  shows "\<exists>names. os_listdir f d = Inr names \<and> n \<in> set names"
proof -
  let ?k = "resolve (os_path_join d n)"
  have b: "basename ?k = n" using assms(3) by (rule basename_resolve_join)
  have "(?k, x) \<in> set f" using assms(4) by (simp add: lookup_def map_of_SomeD)
  then have kin: "?k \<in> set (map fst f)" by force
  have "set [basename k. k \<leftarrow> map fst f, basename k \<noteq> [],
                            resolve (os_path_join d (basename k)) = k]
          = basename ` {k \<in> set (map fst f). basename k \<noteq> []
                          \<and> resolve (os_path_join d (basename k)) = k}"
    by auto
  moreover have "n \<in> basename ` {k \<in> set (map fst f). basename k \<noteq> []
                          \<and> resolve (os_path_join d (basename k)) = k}"
    using kin b assms(2) by (intro image_eqI [of _ _ ?k]) simp_all
  ultimately have "n \<in> set [basename k. k \<leftarrow> map fst f, basename k \<noteq> [],
                            resolve (os_path_join d (basename k)) = k]"
    by simp
  then show ?thesis using assms(1) by (simp add: os_listdir_def)
qed

lemma rsplit_dot_head_wav: "rsplit_dot_head (s @ ''.wav'') = s"
  by (simp add: rsplit_dot_head_def)

lemma os_path_join_wav: "\<exists>s. os_path_join d (x @ ''.wav'') = s @ ''.wav''"
  by (simp add: os_path_join_def)

lemmas os_defs = os_path_exists_def os_path_isfile_def os_path_isdir_def lookup_def
  os_path_join_def startswith_def put_file_def

subsection \<open>The model store\<close>

lemma grows_refl: "grows w w"
  by (simp add: grows_def fetches_only_missing_def)

lemma fetches_only_missing_iff:
  "fetches_only_missing w w' \<longleftrightarrow>
     (\<exists>new. fetch_log w' = fetch_log w @ new \<and>
        (\<forall>f\<in>set new. \<not> os_path_exists (fs w) (os_path_join ''.'' f)))"
  unfolding fetches_only_missing_def list_all_iff
  by (metis append_eq_conv_conj append_take_drop_id)

lemma grows_trans: "grows w w1 \<Longrightarrow> grows w1 w2 \<Longrightarrow> grows w w2"
  unfolding grows_def fetches_only_missing_iff
  by (elim conjE exE) (rule conjI, rule_tac x="new @ newa" in exI, auto)

lemma grows_cached: "grows w w1 \<Longrightarrow> grows w (w1\<lparr>cached_pipeline := c\<rparr>)"
  by (simp add: grows_def fetches_only_missing_def)

lemma grows_download_file:
  "download_file e r f ''.'' w = (x, w') \<Longrightarrow> grows w w'"
  unfolding grows_def fetches_only_missing_iff
  by (auto simp: download_file_def hf_hub_download_def Let_def exists_put_file split: if_splits)

lemma grows_voices_loop:
  "download_voices_loop e False vs acc w = (x, w') \<Longrightarrow> grows w w'"
proof (induction vs arbitrary: acc w)
  case Nil
  then show ?case by (simp add: grows_refl)
next
  case (Cons v vs)
  show ?case
  proof (cases "os_path_exists (fs w) (os_path_join ''voices'' v)")
    case True
    with Cons show ?thesis by simp
  next
    case False
    obtain r w1 where d: "download_file e REPO_ID (''voices/'' @ v) ''.'' w = (r, w1)"
      by (cases "download_file e REPO_ID (''voices/'' @ v) ''.'' w")
    have g1: "grows w w1" using d by (rule grows_download_file)
    have "grows w1 w'" using Cons.prems False d Cons.IH by (auto split: if_splits)
    with g1 show ?thesis by (rule grows_trans)
  qed
qed

lemma grows_mkdir: "mkdir_exist_ok p w = (r, w') \<Longrightarrow> grows w w'"
  unfolding grows_def fetches_only_missing_iff
  by (auto simp: mkdir_exist_ok_def os_path_exists_def lookup_def update_conv'
           split: option.splits node.splits)

lemma grows_download_voice_files:
  assumes "download_voice_files e False w = (r, w')"
  shows "grows w w'"
proof -
  obtain r1 w1 where m: "mkdir_exist_ok ''voices'' w = (r1, w1)"
    by (cases "mkdir_exist_ok ''voices'' w")
  have g1: "grows w w1" using m by (rule grows_mkdir)
  show ?thesis
  proof (cases r1)
    case (Inl x)
    with assms m g1 show ?thesis by (simp add: download_voice_files_def)
  next
    case (Inr u)
    obtain ds w2 where l: "download_voices_loop e False VOICE_FILES [] w1 = (ds, w2)"
      by (cases "download_voices_loop e False VOICE_FILES [] w1")
    have "grows w1 w2" using l by (rule grows_voices_loop)
    moreover have "w' = w2" using assms m Inr l by (simp add: download_voice_files_def)
    ultimately show ?thesis using g1 grows_trans by blast
  qed
qed

lemma grows_build_model:
  assumes "build_model e mp dev w = (r, w')"
  shows "grows w w'"
proof (cases "cached_pipeline w")
  case (Some p)
  with assms show ?thesis by (simp add: build_model_def grows_refl)
next
  case None
  obtain m w1 where s1:
    "(if \<not> os_path_exists (fs w) mp
      then download_file e REPO_ID ''kokoro-v1_0.pth'' ''.'' w else (mp, w)) = (m, w1)"
    by (metis surj_pair)
  have g1: "grows w w1"
    using s1 by (auto split: if_splits intro: grows_refl grows_download_file)
  obtain c w2 where s2:
    "(if \<not> os_path_exists (fs w1) ''config.json''
      then download_file e REPO_ID ''config.json'' ''.'' w1 else (''config.json'', w1)) = (c, w2)"
    by (metis surj_pair)
  have g2: "grows w1 w2"
    using s2 by (auto split: if_splits intro: grows_refl grows_download_file)
  have g: "grows w w2" using g1 g2 by (rule grows_trans)
  have "w' = w1 \<or> w' = w2 \<or> (\<exists>c. w' = w2\<lparr>cached_pipeline := c\<rparr>)"
    using assms None s1 s2 unfolding build_model_def
    by (auto simp: Let_def split: if_splits)
  then show ?thesis using g1 g grows_cached by blast
qed

lemma grows_patched: "patched_load_voice e p vp w = (r, w') \<Longrightarrow> grows w w'"
  by (auto simp: patched_load_voice_def Let_def grows_refl grows_cached
           split: if_splits sum.splits option.splits node.splits)

lemma grows_load_voice:
  assumes "load_voice e vn dev w = (r, w')"
  shows "grows w w'"
proof -
  obtain r1 w1 where b: "build_model e ''kokoro-v1_0.pth'' dev w = (r1, w1)"
    by (metis surj_pair)
  have g1: "grows w w1" using b by (rule grows_build_model)
  obtain r2 w2 where d: "download_voice_files e False w1 = (r2, w2)"
    by (metis surj_pair)
  have g2: "grows w1 w2" using d by (rule grows_download_voice_files)
  have "w' = w1 \<or> w' = w2 \<or> (\<exists>p vp r. patched_load_voice e p vp w1 = (r, w'))
        \<or> (\<exists>p vp r. patched_load_voice e p vp w2 = (r, w'))"
    using assms b d unfolding load_voice_def
    by (auto simp: Let_def split: if_splits sum.splits)
  then show ?thesis using g1 g2 grows_trans grows_patched by blast
qed

lemma build_model_again:
  assumes "build_model e mp dev w = (Inr p, w')"
  shows "cached_pipeline w' = Some p" and "build_model e mp' dev' w' = (Inr p, w')"
proof -
  show c: "cached_pipeline w' = Some p"
    using assms
    by (auto simp: build_model_def Let_def split: option.splits prod.splits if_splits)
  then show "build_model e mp' dev' w' = (Inr p, w')" by (simp add: build_model_def)
qed

lemma patched_load_voice_loaded:
  assumes "patched_load_voice e p vp w = (Inr t, w')"
  shows "cached_pipeline w' \<noteq> None" and "fs w' = fs w" and "fetch_log w' = fetch_log w"
    and "os_path_exists (fs w) vp"
  using assms
  by (auto simp: patched_load_voice_def Let_def
           split: if_splits sum.splits option.splits node.splits)

lemma load_voice_loaded:
  assumes "load_voice e vn dev w = (Inr t, w')"
  shows "cached_pipeline w' \<noteq> None"
    and "os_path_exists (fs w') (''voices/'' @ replace_pt vn @ ''.pt'')"
proof -
  obtain r1 w1 where b: "build_model e ''kokoro-v1_0.pth'' dev w = (r1, w1)"
    by (metis surj_pair)
  obtain r2 w2 where d: "download_voice_files e False w1 = (r2, w2)"
    by (metis surj_pair)
  from assms b d obtain p wx where
    pl: "patched_load_voice e p (''voices/'' @ replace_pt vn @ ''.pt'') wx = (Inr t, w')"
    unfolding load_voice_def
    by (auto simp: Let_def split: if_splits sum.splits)
  from patched_load_voice_loaded [OF pl]
  show "cached_pipeline w' \<noteq> None"
    and "os_path_exists (fs w') (''voices/'' @ replace_pt vn @ ''.pt'')"
    by simp_all
qed

lemma load_voice_again:
  assumes "load_voice e vn dev w = (Inr t, w')"
  shows "fetch_log (snd (load_voice e vn dev' w')) = fetch_log w'"
proof -
  from load_voice_loaded [OF assms] obtain p where c: "cached_pipeline w' = Some p"
    and v: "os_path_exists (fs w') (''voices/'' @ replace_pt vn @ ''.pt'')" by auto
  show ?thesis
    using c v
    by (auto simp: load_voice_def build_model_def Let_def patched_load_voice_def
             split: sum.splits option.splits node.splits)
qed

text \<open>
  Claim C8.  The store looks for an artifact on disk before any download and skips the
  download when the artifact is there: \<^verbatim>\<open>download_file\<close> on a present file returns its
  path and leaves the world (download log included) as it was; whatever \<^verbatim>\<open>build_model\<close>
  and \<^verbatim>\<open>load_voice\<close> fetch was missing when they were called; with the model and the
  configuration present \<^verbatim>\<open>build_model\<close> downloads nothing, and with the voice present
  \<^verbatim>\<open>load_voice\<close> downloads nothing beyond what its call of \<^verbatim>\<open>build_model\<close> did.
  Both are idempotent: after \<^verbatim>\<open>build_model\<close> has returned, calling it again returns the
  same pipeline and changes nothing; after \<^verbatim>\<open>load_voice\<close> has returned, calling it again
  downloads nothing.
\<close>

theorem store_skips_present_artifacts:
  "(os_path_exists (fs w) (os_path_join local_dir filename) \<longrightarrow>
      download_file e repo_id filename local_dir w = (os_path_join local_dir filename, w))
   \<and> fetches_only_missing w (snd (build_model e mp dev w))
   \<and> fetches_only_missing w (snd (load_voice e vn dev w))
   \<and> (os_path_exists (fs w) mp \<and> os_path_exists (fs w) ''config.json'' \<longrightarrow>
        fetch_log (snd (build_model e mp dev w)) = fetch_log w)
   \<and> (os_path_exists (fs w) (''voices/'' @ replace_pt vn @ ''.pt'') \<longrightarrow>
        fetch_log (snd (load_voice e vn dev w))
          = fetch_log (snd (build_model e ''kokoro-v1_0.pth'' dev w)))
   \<and> (\<forall>p. fst (build_model e mp dev w) = Inr p \<longrightarrow>
          build_model e mp dev (snd (build_model e mp dev w))
            = (Inr p, snd (build_model e mp dev w)))
   \<and> (\<forall>t. fst (load_voice e vn dev w) = Inr t \<longrightarrow>
          fetch_log (snd (load_voice e vn dev (snd (load_voice e vn dev w))))
            = fetch_log (snd (load_voice e vn dev w)))"
proof (intro conjI impI allI)
  show "build_model e mp dev (snd (build_model e mp dev w))
            = (Inr p, snd (build_model e mp dev w))"
    if "fst (build_model e mp dev w) = Inr p" for p
    using build_model_again(2) [of e mp dev w p "snd (build_model e mp dev w)"] that
    by (simp add: prod_eq_iff)
  show "fetch_log (snd (load_voice e vn dev (snd (load_voice e vn dev w))))
            = fetch_log (snd (load_voice e vn dev w))"
    if "fst (load_voice e vn dev w) = Inr t" for t
    using load_voice_again [of e vn dev w t "snd (load_voice e vn dev w)"] that
    by (simp add: prod_eq_iff)
  show "download_file e repo_id filename local_dir w = (os_path_join local_dir filename, w)"
    if "os_path_exists (fs w) (os_path_join local_dir filename)"
    using that by (simp add: download_file_def)
  show "fetches_only_missing w (snd (build_model e mp dev w))"
    using grows_build_model [of e mp dev w] by (simp add: grows_def prod_eq_iff)
  show "fetches_only_missing w (snd (load_voice e vn dev w))"
    using grows_load_voice [of e vn dev w] by (simp add: grows_def prod_eq_iff)
  show "fetch_log (snd (build_model e mp dev w)) = fetch_log w"
    if "os_path_exists (fs w) mp \<and> os_path_exists (fs w) ''config.json''"
    using that by (simp add: build_model_def Let_def split: option.splits)
  show "fetch_log (snd (load_voice e vn dev w))
          = fetch_log (snd (build_model e ''kokoro-v1_0.pth'' dev w))"
    if v: "os_path_exists (fs w) (''voices/'' @ replace_pt vn @ ''.pt'')"
  proof -
    obtain r1 w1 where b: "build_model e ''kokoro-v1_0.pth'' dev w = (r1, w1)"
      by (metis surj_pair)
    have "grows w w1" using b by (rule grows_build_model)
    then have "os_path_exists (fs w1) (''voices/'' @ replace_pt vn @ ''.pt'')"
      using v by (simp add: grows_def)
    then show ?thesis using b
      by (auto simp: load_voice_def Let_def patched_load_voice_def
               split: sum.splits option.splits node.splits)
  qed
qed

lemma world0_config: "os_path_exists (fs world0) (os_path_join ''.'' ''config.json'')"
  by (simp add: world0_def os_defs)

lemma world0_model:
  "os_path_exists (fs world0) ''kokoro-v1_0.pth'' \<and> os_path_exists (fs world0) ''config.json''"
  by (simp add: world0_def os_defs)

lemma world0_voice: "os_path_exists (fs world0) (''voices/'' @ replace_pt ''a.pt'' @ ''.pt'')"
  by (simp add: world0_def os_defs)

lemma empty_disk_fetches:
  "fetch_log (snd (build_model env0 ''kokoro-v1_0.pth'' ''cpu'' (world0\<lparr>fs := []\<rparr>)))
     = [''kokoro-v1_0.pth'', ''config.json'']"
  by (simp add: build_model_def world0_def env0_def download_file_def hf_hub_download_def
        os_defs Let_def)

lemma load_voice_world0: "fst (load_voice env0 ''a.pt'' ''cpu'' world0) = Inr [0]"
  by (simp add: load_voice_def build_model_def patched_load_voice_def world0_def env0_def
        os_defs Let_def stem_def basename_def)

theorem store_skips_present_artifacts_witness:
  "os_path_exists (fs world0) (os_path_join ''.'' ''config.json'')
   \<and> download_file env0 REPO_ID ''config.json'' ''.'' world0
       = (os_path_join ''.'' ''config.json'', world0)
   \<and> os_path_exists (fs world0) ''kokoro-v1_0.pth'' \<and> os_path_exists (fs world0) ''config.json''
   \<and> os_path_exists (fs world0) (''voices/'' @ replace_pt ''a.pt'' @ ''.pt'')
   \<and> fst (load_voice env0 ''a.pt'' ''cpu'' world0) = Inr [0]
   \<and> fetch_log (snd (load_voice env0 ''a.pt'' ''cpu'' world0)) = []
   \<and> fetch_log (snd (load_voice env0 ''a.pt'' ''cpu''
                       (snd (load_voice env0 ''a.pt'' ''cpu'' world0)))) = []
   \<and> fetches_only_missing (world0\<lparr>fs := []\<rparr>)
        (snd (build_model env0 ''kokoro-v1_0.pth'' ''cpu'' (world0\<lparr>fs := []\<rparr>)))
   \<and> fetch_log (snd (build_model env0 ''kokoro-v1_0.pth'' ''cpu'' (world0\<lparr>fs := []\<rparr>)))
        = [''kokoro-v1_0.pth'', ''config.json'']"
proof -
  note present = store_skips_present_artifacts
    [of world0 "''.''" "''config.json''" env0 REPO_ID "''kokoro-v1_0.pth''" "''cpu''" "''a.pt''"]
  note absent = store_skips_present_artifacts
    [of "world0\<lparr>fs := []\<rparr>" "''.''" "''config.json''" env0 REPO_ID "''kokoro-v1_0.pth''"
        "''cpu''" "''a.pt''"]
  have "fetch_log world0 = []" by (simp add: world0_def)
  then show ?thesis
    using present absent world0_config world0_model world0_voice empty_disk_fetches
      load_voice_world0
    by simp
qed

subsection \<open>The synthesis engine\<close>

lemma save_audio_isfile:
  "save_audio e a (s @ ''.wav'') fmt w = (Inr r, w') \<Longrightarrow> os_path_isfile (fs w') (s @ ''.wav'')"
  by (auto simp: save_audio_def sf_write_def Let_def rsplit_dot_head_wav isfile_put_file
           split: if_splits)

lemma synth_loop_none:
  "nonempty_segments segs = [] \<Longrightarrow> synth_loop e d ts i segs res auds w = (Inr (res, auds), w)"
  by (induction segs arbitrary: i) (auto simp: nonempty_segments_def split: if_splits)

lemma synth_loop_result:
  "synth_loop e d ts i segs res auds w = (Inr (res', auds'), w') \<Longrightarrow>
     map chunk_segment res' = map chunk_segment res @ nonempty_segments segs \<and>
     length auds' = length auds + length (nonempty_segments segs)"
proof (induction segs arbitrary: i res auds w)
  case Nil
  then show ?case by (simp add: nonempty_segments_def)
next
  case (Cons seg segs)
  obtain gs ps a where seg: "seg = (gs, ps, a)" by (cases seg)
  show ?case
  proof (cases a)
    case None
    with Cons seg show ?thesis by (simp add: nonempty_segments_def)
  next
    case (Some audio)
    with Cons.prems seg Cons.IH show ?thesis
      by (auto simp: nonempty_segments_def chunk_segment_def Let_def
               split: prod.splits sum.splits)
  qed
qed

text \<open>What a call of \<^verbatim>\<open>synthesize\<close> that returns has returned and written.\<close>

lemma synthesize_returned:
  assumes "synthesize e self text speed v w = (Inr (chunk_list, combined_path), self', w')"
  defines "segs \<equiv> raw_synthesis e text (''voices/'' @ v @ ''.pt'') speed (split_pattern self)"
  shows "map chunk_segment chunk_list = nonempty_segments segs"
    and "nonempty_segments segs = [] \<Longrightarrow> combined_path = None"
    and "nonempty_segments segs \<noteq> [] \<Longrightarrow>
           \<exists>s. combined_path = Some (s @ ''.wav'') \<and> os_path_isfile (fs w') (s @ ''.wav'')"
proof -
  let ?ts = "strftime e (clock w)"
  obtain r1 w1 where lv: "load_voice e v (tts_device self) w = (r1, w1)"
    by (metis surj_pair)
  obtain r2 w2 where sl: "synth_loop e (temp_dir self) ?ts 0 segs [] [] w1 = (r2, w2)"
    by (metis surj_pair)
  from assms(1) lv sl obtain res auds where r2: "r2 = Inr (res, auds)"
    unfolding segs_def
    by (auto simp: synthesize_def Let_def split: sum.splits prod.splits if_splits)
  from sl r2 have sr: "map chunk_segment res = nonempty_segments segs"
    and la: "length auds = length (nonempty_segments segs)"
    using synth_loop_result [of e "temp_dir self" ?ts 0 segs "[]" "[]" w1 res auds w2]
    by simp_all
  obtain s where s: "os_path_join (temp_dir self) (''combined_'' @ ?ts @ ''.wav'') = s @ ''.wav''"
    using os_path_join_wav [of "temp_dir self" "''combined_'' @ ?ts"] by auto
  show "nonempty_segments segs = [] \<Longrightarrow> combined_path = None"
    using assms(1) lv sl r2 la unfolding segs_def
    by (auto simp: synthesize_def Let_def split: sum.splits prod.splits if_splits)
  show "map chunk_segment chunk_list = nonempty_segments segs"
  proof (cases "auds = []")
    case True
    with la have "nonempty_segments segs = []" by simp
    moreover from True assms(1) lv sl r2 have "chunk_list = []"
      unfolding segs_def by (auto simp: synthesize_def Let_def split: sum.splits prod.splits)
    ultimately show ?thesis by simp
  next
    case False
    with assms(1) lv sl r2 have "chunk_list = res"
      unfolding segs_def
      by (auto simp: synthesize_def Let_def split: sum.splits prod.splits if_splits)
    with sr show ?thesis by simp
  qed
  show "\<exists>s. combined_path = Some (s @ ''.wav'') \<and> os_path_isfile (fs w') (s @ ''.wav'')"
    if ne: "nonempty_segments segs \<noteq> []"
  proof -
    from la ne have "auds \<noteq> []" by auto
    with assms(1) lv sl r2 s obtain r3 where
      sa: "save_audio e (concat auds) (s @ ''.wav'') ''WAV'' w2 = (Inr r3, w')"
      and cp: "combined_path = Some (s @ ''.wav'')"
      unfolding segs_def
      by (auto simp: synthesize_def Let_def split: sum.splits prod.splits if_splits)
    from sa have "os_path_isfile (fs w') (s @ ''.wav'')" by (rule save_audio_isfile)
    with cp show ?thesis by blast
  qed
qed

text \<open>
  The exceptions of \<^verbatim>\<open>synthesize\<close>: the one \<^verbatim>\<open>load_voice\<close> raised, or that of a
  write that failed together with its fallback.
\<close>

lemma save_audio_raises: "fst (save_audio e a p fmt w) = Inl x \<Longrightarrow> x = IOError"
  by (auto simp: save_audio_def sf_write_def Let_def split: if_splits)

lemma synth_loop_raises:
  "fst (synth_loop e d ts i segs res auds w) = Inl x \<Longrightarrow> x = IOError"
proof (induction segs arbitrary: i res auds w)
  case Nil
  then show ?case by simp
next
  case (Cons seg segs)
  obtain gs ps a where seg: "seg = (gs, ps, a)" by (cases seg)
  show ?case
  proof (cases a)
    case None
    with Cons seg show ?thesis by simp
  next
    case (Some audio)
    let ?p = "os_path_join d (''chunk_'' @ ts @ ''_'' @ str_nat i @ ''.wav'')"
    obtain r w' where sa: "save_audio e audio ?p ''WAV'' w = (r, w')" by (metis surj_pair)
    show ?thesis
    proof (cases r)
      case (Inl y)
      with sa have "y = IOError" using save_audio_raises [of e audio ?p "''WAV''" w y] by simp
      with Cons.prems seg Some sa Inl show ?thesis by (simp add: Let_def)
    next
      case (Inr q)
      with Cons.prems seg Some sa Cons.IH show ?thesis by (simp add: Let_def)
    qed
  qed
qed

lemma synthesize_raises:
  assumes "fst (synthesize e self text speed v w) = Inl x"
  shows "fst (load_voice e v (tts_device self) w) = Inl x \<or> x = IOError"
proof -
  let ?ts = "strftime e (clock w)"
  let ?segs = "raw_synthesis e text (''voices/'' @ v @ ''.pt'') speed (split_pattern self)"
  obtain r1 w1 where lv: "load_voice e v (tts_device self) w = (r1, w1)" by (metis surj_pair)
  show ?thesis
  proof (cases r1)
    case (Inl y)
    with assms lv show ?thesis by (simp add: synthesize_def Let_def)
  next
    case (Inr vm)
    obtain r2 w2 where sl: "synth_loop e (temp_dir self) ?ts 0 ?segs [] [] w1 = (r2, w2)"
      by (metis surj_pair)
    show ?thesis
    proof (cases r2)
      case (Inl y)
      with sl have "y = IOError"
        using synth_loop_raises [of e "temp_dir self" ?ts 0 ?segs "[]" "[]" w1 y] by simp
      with assms lv Inr sl Inl show ?thesis by (simp add: synthesize_def Let_def)
    next
      case r: (Inr ra)
      obtain res auds where ra: "ra = (res, auds)" by (cases ra)
      let ?cp = "os_path_join (temp_dir self) (''combined_'' @ ?ts @ ''.wav'')"
      have "x = IOError"
        using assms lv Inr sl r ra save_audio_raises [of e "concat auds" ?cp "''WAV''" w2 x]
        by (auto simp: synthesize_def Let_def split: if_splits prod.splits sum.splits)
      then show ?thesis by simp
    qed
  qed
qed

text \<open>
  Claim C1.  When the voice loads and the pipeline yields no segment with audio,
  \<^verbatim>\<open>synthesize\<close> returns the empty chunk list and no combined path; it does not raise.
\<close>

theorem synthesize_empty:
  assumes "fst (load_voice e v (tts_device self) w) = Inr vm"
    and "nonempty_segments
           (raw_synthesis e text (''voices/'' @ v @ ''.pt'') speed (split_pattern self)) = []"
  shows "fst (synthesize e self text speed v w) = Inr ([], None)"
  using assms
  by (cases "load_voice e v (tts_device self) w")
     (simp add: synthesize_def Let_def synth_loop_none)

lemma load_voice_silent:
  "fst (load_voice env_silent ''a'' (tts_device wrapper0) world0) = Inr [0]"
  by (simp add: load_voice_def build_model_def patched_load_voice_def world0_def env0_def
        env_silent_def wrapper0_def os_defs Let_def stem_def basename_def)

lemma segments_silent:
  "nonempty_segments
     (raw_synthesis env_silent ''hi'' (''voices/'' @ ''a'' @ ''.pt'') 1 (split_pattern wrapper0)) = []"
  by (simp add: env_silent_def env0_def nonempty_segments_def)

theorem synthesize_empty_witness:
  "fst (load_voice env_silent ''a'' (tts_device wrapper0) world0) = Inr [0]
   \<and> nonempty_segments
       (raw_synthesis env_silent ''hi'' (''voices/'' @ ''a'' @ ''.pt'') 1 (split_pattern wrapper0)) = []
   \<and> fst (synthesize env_silent wrapper0 ''hi'' 1 ''a'' world0) = Inr ([], None)"
  using synthesize_empty [OF load_voice_silent segments_silent] load_voice_silent segments_silent
  by simp

text \<open>
  Claim C2.  When the pipeline yields at least one segment with audio, the chunk list
  that \<^verbatim>\<open>synthesize\<close> returns has as many entries as there are such segments, and the
  combined path it returns is not \<^verbatim>\<open>None\<close> and names a file that exists when the call
  returns.  The call returns unless loading the voice raises or a write of an audio file
  fails together with its fallback; that exception is then raised again.
\<close>

theorem synthesize_chunks:
  assumes "nonempty_segments
             (raw_synthesis e text (''voices/'' @ v @ ''.pt'') speed (split_pattern self)) \<noteq> []"
  shows "(\<forall>chunk_list combined_path self' w'.
            synthesize e self text speed v w = (Inr (chunk_list, combined_path), self', w')
            \<longrightarrow> length chunk_list
                  = length (nonempty_segments
                      (raw_synthesis e text (''voices/'' @ v @ ''.pt'') speed
                         (split_pattern self)))
                \<and> (\<exists>p. combined_path = Some p \<and> os_path_exists (fs w') p
                         \<and> os_path_isfile (fs w') p))
       \<and> (\<forall>x. fst (synthesize e self text speed v w) = Inl x
            \<longrightarrow> fst (load_voice e v (tts_device self) w) = Inl x \<or> x = IOError)"
proof (intro conjI allI impI)
  fix chunk_list combined_path self' w'
  assume r: "synthesize e self text speed v w = (Inr (chunk_list, combined_path), self', w')"
  have "length (map chunk_segment chunk_list)
          = length (nonempty_segments
              (raw_synthesis e text (''voices/'' @ v @ ''.pt'') speed (split_pattern self)))"
    using synthesize_returned(1) [OF r] by simp
  then show "length chunk_list
          = length (nonempty_segments
              (raw_synthesis e text (''voices/'' @ v @ ''.pt'') speed (split_pattern self)))"
    by simp
  obtain s where "combined_path = Some (s @ ''.wav'')"
    and "os_path_isfile (fs w') (s @ ''.wav'')"
    using synthesize_returned(3) [OF r assms] by blast
  then show "\<exists>p. combined_path = Some p \<and> os_path_exists (fs w') p \<and> os_path_isfile (fs w') p"
    using isfile_exists by simp
next
  fix x
  assume "fst (synthesize e self text speed v w) = Inl x"
  then show "fst (load_voice e v (tts_device self) w) = Inl x \<or> x = IOError"
    by (rule synthesize_raises)
qed

lemma synthesize_world0:
  "synthesize env0 wrapper0 ''hi'' 1 ''a'' world0
     = (Inr ([(''hi'', ''ph'', [1 / 2], ''t/chunk_T_0.wav'')], Some ''t/combined_T.wav''),
        wrapper0\<lparr>last_synthesis_timestamp := Some ''T''\<rparr>,
        world0\<lparr>fs := fs world0 @ [(''t/chunk_T_0.wav'', File 1000000 (Wav [1 / 2])),
                                  (''t/combined_T.wav'', File 1000000 (Wav [1 / 2]))],
               write_count := 2,
               cached_pipeline := Some \<lparr>device = ''cpu'', voices = [(''a'', [0])]\<rparr>\<rparr>)"
  by (simp add: synthesize_def load_voice_def build_model_def patched_load_voice_def
        save_audio_def sf_write_def upper_def digit_char_def
        world0_def env0_def wrapper0_def os_defs Let_def stem_def basename_def)

lemma segments_world0:
  "nonempty_segments
     (raw_synthesis env0 ''hi'' (''voices/'' @ ''a'' @ ''.pt'') 1 (split_pattern wrapper0))
     = [(''hi'', ''ph'', Some [1 / 2])]"
  by (simp add: env0_def nonempty_segments_def)

theorem synthesize_chunks_witness:
  "nonempty_segments
     (raw_synthesis env0 ''hi'' (''voices/'' @ ''a'' @ ''.pt'') 1 (split_pattern wrapper0)) \<noteq> []
   \<and> fst (synthesize env0 wrapper0 ''hi'' 1 ''a'' world0)
       = Inr ([(''hi'', ''ph'', [1 / 2], ''t/chunk_T_0.wav'')], Some ''t/combined_T.wav'')
   \<and> os_path_isfile (fs (snd (snd (synthesize env0 wrapper0 ''hi'' 1 ''a'' world0))))
       ''t/combined_T.wav''"
proof -
  have n: "nonempty_segments
       (raw_synthesis env0 ''hi'' (''voices/'' @ ''a'' @ ''.pt'') 1 (split_pattern wrapper0)) \<noteq> []"
    using segments_world0 by simp
  from synthesize_chunks [OF n, of world0] synthesize_world0
  have "os_path_isfile (fs (snd (snd (synthesize env0 wrapper0 ''hi'' 1 ''a'' world0))))
       ''t/combined_T.wav''"
    by (metis option.inject snd_conv)
  then show ?thesis using n by (simp add: synthesize_world0)
qed

subsection \<open>JSON text\<close>

text \<open>
  What the decoder reads from the text that the encoder wrote.  A string, with any
  characters in it, is read back as it was and the text after it is left.
\<close>

lemma hex_val_hex_digit: "d < 16 \<Longrightarrow> hex_val (hex_digit d) = Some d"
  by (simp add: hex_val_def hex_digit_def Let_def)

lemma hex_val_zero: "hex_val CHR ''0'' = Some 0"
  by (simp add: hex_val_def)

lemma scan_escape_char:
  "scanstring Plain acc (escape_char c @ s) = scanstring Plain (acc @ [c]) s"
proof -
  let ?n = "of_char c :: nat"
  have n: "?n < 256" by simp
  have rebuild: "char_of (16 * (?n div 16) + ?n mod 16) = c" by simp
  have lo: "c \<noteq> CHR 0x22 \<Longrightarrow> c \<noteq> CHR 0x5C \<Longrightarrow> 0x20 \<le> ?n \<Longrightarrow>
            scanstring Plain acc (c # s) = scanstring Plain (acc @ [c]) s"
    by simp
  have "?n div 16 < 16" using n by arith
  then have h1: "hex_val (hex_digit (?n div 16)) = Some (?n div 16)"
    by (rule hex_val_hex_digit)
  have h2: "hex_val (hex_digit (?n mod 16)) = Some (?n mod 16)"
    by (rule hex_val_hex_digit) simp
  show ?thesis
    using rebuild lo
    by (simp add: escape_char_def unescape_def h1 h2 hex_val_zero Let_def)
qed

lemma scan_escaped:
  "scanstring Plain acc (concat (map escape_char s) @ CHR 0x22 # rest) = Some (acc @ s, rest)"
proof (induction s arbitrary: acc)
  case Nil
  show ?case by simp
next
  case (Cons c s)
  show ?case using Cons.IH [of "acc @ [c]"] by (simp add: scan_escape_char)
qed

lemma parse_str_encode: "parse_str (encode_str s @ rest) = Some (s, rest)"
  using scan_escaped [of "[]" s rest] by (simp add: parse_str_def encode_str_def)

text \<open>
  The items of a list or dictionary as the encoder lays them out, one to a line, are read
  back one by one, when every item is read back from its own text and starts with a
  character of its own.
\<close>

lemma skip_ws_newline_indent: "skip_ws (newline_indent l @ s) = skip_ws s"
  by (simp add: skip_ws_def newline_indent_def is_ws_def dropWhile_append)

lemma skip_ws_token: "token cls s \<Longrightarrow> skip_ws s = s"
  by (cases s) (simp_all add: skip_ws_def token_def)

lemma skip_ws_token_append: "token cls s \<Longrightarrow> skip_ws (s @ r) = s @ r"
  by (cases s) (simp_all add: skip_ws_def token_def)

lemma follow_newline_indent: "follow (newline_indent l @ s)"
  by (simp add: follow_def newline_indent_def)

lemma follow_comma: "follow (CHR '','' # s)"
  by (simp add: follow_def)

lemma parse_items_encode:
  assumes "\<And>x r. x \<in> set xs \<Longrightarrow> follow r \<Longrightarrow> p (q x @ r) = Some (x, r)"
    and "\<And>x. x \<in> set xs \<Longrightarrow> token cls (q x)"
    and "length xs < fuel"
    and "\<not> is_ws cls" and "cls \<noteq> CHR '',''"
  shows "parse_items fuel cls p acc
           (concat (map (\<lambda>y. CHR '','' # newline_indent l @ q y) xs)
              @ newline_indent l' @ cls # rest)
         = Some (acc @ xs, rest)"
  using assms
proof (induction xs arbitrary: fuel acc)
  case Nil
  then obtain f where f: "fuel = Suc f" by (cases fuel) auto
  have "skip_ws (newline_indent l' @ cls # rest) = cls # rest"
    using Nil.prems(4) by (simp add: skip_ws_newline_indent) (simp add: skip_ws_def)
  then show ?case by (simp add: f)
next
  case (Cons x xs)
  then obtain f where f: "fuel = Suc f" and len: "length xs < f" by (cases fuel) auto
  let ?tail = "concat (map (\<lambda>y. CHR '','' # newline_indent l @ q y) xs)
                 @ newline_indent l' @ cls # rest"
  have fol: "follow ?tail"
    by (cases xs) (simp_all add: follow_newline_indent follow_comma)
  have tok: "token cls (q x)" using Cons.prems(2) by simp
  have px: "p (q x @ ?tail) = Some (x, ?tail)" using Cons.prems(1) fol by simp
  have sk1: "skip_ws (CHR '','' # newline_indent l @ q x @ ?tail)
               = CHR '','' # newline_indent l @ q x @ ?tail"
    by (simp add: skip_ws_def is_ws_def)
  have sk2: "skip_ws (newline_indent l @ q x @ ?tail) = q x @ ?tail"
    using tok by (simp add: skip_ws_newline_indent skip_ws_token_append)
  have IH: "parse_items f cls p (acc @ [x]) ?tail = Some ((acc @ [x]) @ xs, rest)"
    using Cons.prems len by (intro Cons.IH) simp_all
  show ?case
    using sk1 sk2 px IH Cons.prems(5) by (simp add: f)
qed

lemma length_concat_items:
  "length xs \<le> length (concat (map (\<lambda>y. c # f y) xs) @ r)"
  by (induction xs) simp_all

lemma parse_seq_encode:
  assumes "\<And>x r. x \<in> set xs \<Longrightarrow> follow r \<Longrightarrow> p (q x @ r) = Some (x, r)"
    and "\<And>x. x \<in> set xs \<Longrightarrow> token cls (q x)"
    and "\<not> is_ws cls" and "cls \<noteq> CHR '',''"
  shows "parse_seq opn cls p (encode_seq opn cls l (map q xs) @ rest) = Some (xs, rest)"
proof (cases xs)
  case Nil
  then show ?thesis
    using assms(3) by (simp add: parse_seq_def encode_seq_def skip_ws_def)
next
  case (Cons x ys)
  let ?tail = "concat (map (\<lambda>y. CHR '','' # newline_indent (Suc l) @ q y) ys)
                 @ newline_indent l @ cls # rest"
  have fol: "follow ?tail"
    by (cases ys) (simp_all add: follow_newline_indent follow_comma)
  have tok: "token cls (q x)" using assms(2) Cons by simp
  then obtain d r where qx: "q x = d # r" and d: "\<not> is_ws d" "d \<noteq> cls"
    by (cases "q x") (simp_all add: token_def)
  have sk: "skip_ws (newline_indent (Suc l) @ q x @ ?tail) = q x @ ?tail"
    using tok by (simp add: skip_ws_newline_indent skip_ws_token_append)
  have px: "p (q x @ ?tail) = Some (x, ?tail)" using assms(1) Cons fol by simp
  have items: "parse_items (Suc (length ?tail)) cls p [x] ?tail = Some ([x] @ ys, rest)"
  proof (rule parse_items_encode)
    show "length ys < Suc (length ?tail)"
      using length_concat_items [of ys "CHR '',''" "\<lambda>y. newline_indent (Suc l) @ q y"
                                   "newline_indent l @ cls # rest"]
      by simp
  qed (use assms Cons in simp_all)
  have enc: "encode_seq opn cls l (map q xs) @ rest
               = opn # newline_indent (Suc l) @ q x @ ?tail"
    by (simp add: encode_seq_def Cons comp_def)
  have sk': "skip_ws (newline_indent (Suc l) @ q x @ ?tail) = d # r @ ?tail"
    using sk qx by simp
  have px': "p (d # r @ ?tail) = Some (x, ?tail)" using px qx by simp
  show ?thesis
    unfolding enc
    using items d
    by (simp add: parse_seq_def sk' px' Cons del: parse_items.simps)
qed

text \<open>Chunks, the values of a generation, and generations.\<close>

lemma encode_seq_Cons: "\<exists>r. encode_seq opn cls l items = opn # r"
  by (cases items) (simp_all add: encode_seq_def)

lemma token_encode_seq:
  "\<not> is_ws opn \<Longrightarrow> opn \<noteq> cls' \<Longrightarrow> token cls' (encode_seq opn cls l items)"
  using encode_seq_Cons [of opn cls l items] by (auto simp: token_def)

lemma token_encode_str: "cls \<noteq> CHR 0x22 \<Longrightarrow> token cls (encode_str s)"
  by (simp add: token_def encode_str_def is_ws_def)

lemma token_encode_item: "cls \<noteq> CHR 0x22 \<Longrightarrow> token cls (encode_item enc kv)"
  by (simp add: token_def encode_item_def encode_str_def is_ws_def)

lemma parse_item_encode:
  assumes "pv (enc v @ r) = Some (v, r)" and "token cls (enc v)"
  shows "parse_item pv (encode_item enc (k, v) @ r) = Some ((k, v), r)"
proof -
  have 1: "parse_str (encode_str k @ CHR '':'' # CHR '' '' # enc v @ r)
             = Some (k, CHR '':'' # CHR '' '' # enc v @ r)"
    by (rule parse_str_encode)
  have 2: "skip_ws (CHR '':'' # CHR '' '' # enc v @ r) = CHR '':'' # CHR '' '' # enc v @ r"
    by (simp add: skip_ws_def is_ws_def)
  have "skip_ws (CHR '' '' # enc v @ r) = skip_ws (enc v @ r)"
    by (simp add: skip_ws_def is_ws_def)
  then have 3: "skip_ws (CHR '' '' # enc v @ r) = enc v @ r"
    using assms(2) by (simp add: skip_ws_token_append)
  show ?thesis
    by (simp add: parse_item_def encode_item_def 1 2 3 assms(1))
qed

lemma chunk_of_dict_chunk_dict: "chunk_of_dict (chunk_dict c) = Some c"
  by (simp add: chunk_of_dict_def chunk_dict_def dict_get_def)

lemma generation_of_dict_generation_dict: "generation_of_dict (generation_dict g) = Some g"
  by (simp add: generation_of_dict_def generation_dict_def dict_get_def)

lemma parse_chunk_encode: "parse_chunk (encode_chunk l c @ r) = Some (c, r)"
proof -
  have "parse_seq CHR ''{'' CHR ''}'' (parse_item parse_str)
          (encode_seq CHR ''{'' CHR ''}'' l (map (encode_item encode_str) (chunk_dict c)) @ r)
        = Some (chunk_dict c, r)"
  proof (rule parse_seq_encode)
    fix x :: "string \<times> string" and r'
    have "parse_item parse_str (encode_item encode_str (fst x, snd x) @ r')
            = Some ((fst x, snd x), r')"
      by (rule parse_item_encode [where cls = "CHR ''}''"])
         (simp_all add: parse_str_encode token_encode_str)
    then show "parse_item parse_str (encode_item encode_str x @ r') = Some (x, r')" by simp
  next
    fix x :: "string \<times> string"
    show "token CHR ''}'' (encode_item encode_str x)" by (simp add: token_encode_item)
  qed (simp_all add: is_ws_def)
  then show ?thesis
    by (simp add: parse_chunk_def parse_dict_def encode_chunk_def encode_dict_def
        chunk_of_dict_chunk_dict)
qed

lemma parse_chunks_encode:
  "parse_seq CHR ''['' CHR '']'' parse_chunk (encode_list l (map (encode_chunk l') cs) @ r)
     = Some (cs, r)"
  unfolding encode_list_def
proof (rule parse_seq_encode)
  fix x
  show "token CHR '']'' (encode_chunk l' x)"
    by (simp add: encode_chunk_def encode_dict_def token_encode_seq is_ws_def)
qed (simp_all add: parse_chunk_encode is_ws_def)

lemma follow_not_num: "follow r \<Longrightarrow> \<exists>c r'. r = c # r' \<and> \<not> is_num_char c"
  by (cases r) (auto simp: follow_def is_num_char_def)

lemma parse_number_repr:
  assumes "float_ok e x" and "follow r"
  shows "parse_number e (float_repr e x @ r) = Some (x, r)"
proof -
  obtain c r' where r: "r = c # r'" and c: "\<not> is_num_char c"
    using follow_not_num [OF assms(2)] by blast
  have all: "\<forall>a\<in>set (float_repr e x). is_num_char a"
    using assms(1) by (simp add: float_ok_def list_all_iff)
  have t: "takeWhile is_num_char (float_repr e x @ r) = float_repr e x"
    using all c by (simp add: r takeWhile_append2 takeWhile_tail)
  have d: "dropWhile is_num_char (float_repr e x @ r) = r"
    using all c by (simp add: r dropWhile_append2)
  show ?thesis
    using assms(1) by (simp add: parse_number_def t d float_ok_def)
qed

lemma float_repr_head:
  assumes "float_ok e x"
  shows "\<exists>c s. float_repr e x = c # s \<and> is_num_char c"
  using assms by (cases "float_repr e x") (simp_all add: float_ok_def)

lemma num_char_token:
  "is_num_char c \<Longrightarrow> \<not> is_ws c \<and> c \<noteq> CHR ''}'' \<and> c \<noteq> CHR 0x22 \<and> c \<noteq> CHR ''[''"
  by (auto simp: is_num_char_def is_ws_def)

lemma token_encode_field:
  assumes "field_ok e f"
  shows "token CHR ''}'' (encode_field e l f)"
proof (cases f)
  case (FNum x)
  then obtain c s where "float_repr e x = c # s" "is_num_char c"
    using float_repr_head [of e x] assms by (auto simp: field_ok_def)
  then show ?thesis using num_char_token [of c] by (simp add: FNum token_def)
next
  case (FStr s)
  then show ?thesis by (simp add: token_encode_str)
next
  case (FChunks cs)
  then show ?thesis by (simp add: encode_list_def token_encode_seq is_ws_def)
qed

lemma parse_field_encode:
  assumes "field_ok e f" and "follow r"
  shows "parse_field e (encode_field e l f @ r) = Some (f, r)"
proof (cases f)
  case (FNum x)
  then have ok: "float_ok e x" using assms(1) by (simp add: field_ok_def)
  obtain c s where h: "float_repr e x = c # s" "is_num_char c"
    using float_repr_head [OF ok] by blast
  have "parse_number e (c # s @ r) = Some (x, r)"
    using parse_number_repr [OF ok assms(2)] h by simp
  then show ?thesis
    using num_char_token [OF h(2)] by (simp add: FNum parse_field_def h)
next
  case (FStr s)
  have "parse_str (encode_str s @ r) = Some (s, r)" by (rule parse_str_encode)
  moreover have "\<exists>t. encode_str s @ r = CHR 0x22 # t" by (simp add: encode_str_def)
  ultimately show ?thesis by (auto simp: FStr parse_field_def)
next
  case (FChunks cs)
  let ?t = "encode_list l (map (encode_chunk (Suc l)) cs)"
  have p: "parse_seq CHR ''['' CHR '']'' parse_chunk (?t @ r) = Some (cs, r)"
    by (rule parse_chunks_encode)
  obtain t where t: "?t = CHR ''['' # t"
    using encode_seq_Cons [of "CHR ''[''" "CHR '']''" l "map (encode_chunk (Suc l)) cs"]
    by (auto simp: encode_list_def)
  show ?thesis
    using p by (simp add: FChunks parse_field_def t)
qed

lemma parse_generation_encode:
  assumes "float_ok e (timestamp g)"
  shows "parse_generation e (encode_generation e l g @ r) = Some (g, r)"
proof -
  have ok: "\<And>x. x \<in> set (generation_dict g) \<Longrightarrow> field_ok e (snd x)"
    using assms by (auto simp: generation_dict_def field_ok_def)
  have "parse_seq CHR ''{'' CHR ''}'' (parse_item (parse_field e))
          (encode_seq CHR ''{'' CHR ''}'' l
             (map (encode_item (encode_field e (Suc l))) (generation_dict g)) @ r)
        = Some (generation_dict g, r)"
  proof (rule parse_seq_encode)
    fix x :: "string \<times> field" and r'
    assume x: "x \<in> set (generation_dict g)" and r': "follow r'"
    have "parse_item (parse_field e) (encode_item (encode_field e (Suc l)) (fst x, snd x) @ r')
            = Some ((fst x, snd x), r')"
      by (rule parse_item_encode [where cls = "CHR ''}''"])
         (simp_all add: parse_field_encode token_encode_field ok x r')
    then show "parse_item (parse_field e) (encode_item (encode_field e (Suc l)) x @ r')
                 = Some (x, r')"
      by simp
  next
    fix x :: "string \<times> field"
    show "token CHR ''}'' (encode_item (encode_field e (Suc l)) x)"
      by (simp add: token_encode_item)
  qed (simp_all add: is_ws_def)
  then show ?thesis
    by (simp add: parse_generation_def parse_dict_def encode_generation_def encode_dict_def
        generation_of_dict_generation_dict)
qed

text \<open>
  The decoder reads a well-formed list of generations back from the text that the encoder
  wrote for it.
\<close>

lemma json_round_trip:
  assumes "well_formed e gens"
  shows "json_loads e (json_dumps e gens) = Some gens"
proof -
  let ?t = "encode_seq CHR ''['' CHR '']'' 0 (map (encode_generation e 1) gens)"
  have p: "parse_seq CHR ''['' CHR '']'' (parse_generation e) (?t @ []) = Some (gens, [])"
  proof (rule parse_seq_encode)
    fix x r
    assume "x \<in> set gens"
    then have "float_ok e (timestamp x)"
      using assms by (simp add: well_formed_def list_all_iff)
    then show "parse_generation e (encode_generation e 1 x @ r) = Some (x, r)"
      by (rule parse_generation_encode)
  next
    fix x
    show "token CHR '']'' (encode_generation e 1 x)"
      by (simp add: encode_generation_def encode_dict_def token_encode_seq is_ws_def)
  qed (simp_all add: is_ws_def)
  have "token CHR '']'' ?t" by (simp add: token_encode_seq is_ws_def)
  then have sk: "skip_ws ?t = ?t" by (rule skip_ws_token)
  have nil: "skip_ws [] = []" by (simp add: skip_ws_def)
  show ?thesis
    using p sk by (simp add: json_loads_def json_dumps_def encode_list_def nil)
qed

text \<open>
  Two runs of the library, with the texts given by the codes of their characters: the
  text that CPython writes with \<^verbatim>\<open>json.dumps(ledger, indent=2)\<close> for a ledger of one
  generation with one chunk whose graphemes are \<^verbatim>\<open>a"b\<close>, and the value it reads with
  \<^verbatim>\<open>json.loads\<close> from a text in one line, with the keys in another order and with escaped
  characters in a string.
\<close>

lemma json_dumps_example:
  "map of_char
     (json_dumps env0
        [\<lparr>timestamp = 12,
          chunks = [\<lparr>graphemes = [CHR ''a'', CHR 0x22, CHR ''b''], phonemes = ''p'',
                     filepath = ''f''\<rparr>],
          combined = ''c''\<rparr>])
   = ([91, 10, 32, 32, 123, 10, 32, 32, 32, 32, 34, 116, 105, 109, 101, 115, 116, 97, 109,
       112, 34, 58, 32, 49, 50, 46, 48, 44, 10, 32, 32, 32, 32, 34, 99, 104, 117, 110, 107,
       115, 34, 58, 32, 91, 10, 32, 32, 32, 32, 32, 32, 123, 10, 32, 32, 32, 32, 32, 32,
       32, 32, 34, 103, 114, 97, 112, 104, 101, 109, 101, 115, 34, 58, 32, 34, 97, 92, 34,
       98, 34, 44, 10, 32, 32, 32, 32, 32, 32, 32, 32, 34, 112, 104, 111, 110, 101, 109,
       101, 115, 34, 58, 32, 34, 112, 34, 44, 10, 32, 32, 32, 32, 32, 32, 32, 32, 34, 102,
       105, 108, 101, 112, 97, 116, 104, 34, 58, 32, 34, 102, 34, 10, 32, 32, 32, 32, 32,
       32, 125, 10, 32, 32, 32, 32, 93, 44, 10, 32, 32, 32, 32, 34, 99, 111, 109, 98, 105,
       110, 101, 100, 34, 58, 32, 34, 99, 34, 10, 32, 32, 125, 10, 93] :: nat list)"
  by code_simp

lemma json_loads_example:
  "json_loads env0
     (map char_of
        ([91, 123, 34, 99, 111, 109, 98, 105, 110, 101, 100, 34, 58, 34, 120, 92, 117, 48,
          48, 52, 49, 92, 47, 34, 44, 34, 99, 104, 117, 110, 107, 115, 34, 58, 91, 93, 44,
          32, 34, 116, 105, 109, 101, 115, 116, 97, 109, 112, 34, 58, 55, 46, 48, 125, 93,
          10] :: nat list))
   = Some [\<lparr>timestamp = 7, chunks = [], combined = ''xA/''\<rparr>]"
  by code_simp

text \<open>
  In the concrete environment every whole number that is not negative is a float that
  the ledger file can hold.
\<close>

lemma of_char_digit_char: "d < 10 \<Longrightarrow> (of_char (digit_char d) :: nat) = 48 + d"
proof -
  assume "d < 10"
  then have "d \<in> {0, 1, 2, 3, 4, 5, 6, 7, 8, 9}" by auto
  then show ?thesis by (auto simp: digit_char_def)
qed

lemma is_digit_digit_char: "d < 10 \<Longrightarrow> is_digit (digit_char d)"
  by (simp add: is_digit_def of_char_digit_char)

lemma digit_char_zero: "d < 10 \<Longrightarrow> digit_char d = CHR ''0'' \<longleftrightarrow> d = 0"
proof -
  assume d: "d < 10"
  have "digit_char d = CHR ''0'' \<longleftrightarrow> (of_char (digit_char d) :: nat) = of_char CHR ''0''"
    by (simp only: of_char_eq_iff)
  then show ?thesis using d by (simp add: of_char_digit_char del: of_char_eq_iff)
qed

lemma str_nat_digits: "list_all is_digit (str_nat n)"
proof (induction n rule: str_nat.induct)
  case (1 n)
  show ?case
  proof (cases "n < 10")
    case True
    then show ?thesis by (subst str_nat.simps) (simp add: is_digit_digit_char del: str_nat.simps)
  next
    case False
    then show ?thesis
      using 1 by (subst str_nat.simps) (simp add: is_digit_digit_char del: str_nat.simps)
  qed
qed

lemma str_nat_not_Nil: "str_nat n \<noteq> []"
  by (subst str_nat.simps) (simp del: str_nat.simps)

lemma nat_of_digits_snoc:
  "nat_of_digits (ds @ [c]) = 10 * nat_of_digits ds + ((of_char c :: nat) - 48)"
  by (simp add: nat_of_digits_def)

lemma nat_of_digits_str_nat: "nat_of_digits (str_nat n) = n"
proof (induction n rule: str_nat.induct)
  case (1 n)
  show ?case
  proof (cases "n < 10")
    case True
    then show ?thesis
      by (subst str_nat.simps) (simp add: nat_of_digits_def of_char_digit_char del: str_nat.simps)
  next
    case False
    then have "nat_of_digits (str_nat (n div 10)) = n div 10"
      using 1 by (simp del: str_nat.simps)
    then show ?thesis
      using False
      by (subst str_nat.simps) (simp add: nat_of_digits_snoc of_char_digit_char del: str_nat.simps)
  qed
qed

lemma hd_str_nat: "0 < n \<Longrightarrow> hd (str_nat n) \<noteq> CHR ''0''"
proof (induction n rule: str_nat.induct)
  case (1 n)
  show ?case
  proof (cases "n < 10")
    case True
    then show ?thesis
      using "1.prems" by (subst str_nat.simps) (simp add: digit_char_zero del: str_nat.simps)
  next
    case False
    then have "hd (str_nat (n div 10)) \<noteq> CHR ''0''"
      using 1 by (simp del: str_nat.simps)
    then show ?thesis
      using False str_nat_not_Nil [of "n div 10"]
      by (subst str_nat.simps) (simp del: str_nat.simps)
  qed
qed

lemma str_nat_zero: "str_nat 0 = ''0''"
  by (subst str_nat.simps) (simp add: digit_char_def del: str_nat.simps)

lemma str_nat_leading: "str_nat n = ''0'' \<or> hd (str_nat n) \<noteq> CHR ''0''"
  using hd_str_nat [of n] str_nat_zero by (cases "n = 0") (auto simp del: str_nat.simps)

lemma whole_parse_repr: "whole_parse (whole_repr (real n)) = Some (real n)"
proof -
  have all: "\<forall>c\<in>set (str_nat n). is_digit c"
    using str_nat_digits [of n] by (simp add: list_all_iff del: str_nat.simps)
  have dot: "\<not> is_digit CHR ''.''" by (simp add: is_digit_def)
  have t: "takeWhile is_digit (str_nat n @ ''.0'') = str_nat n"
    using all dot by (simp add: takeWhile_tail del: str_nat.simps)
  have d: "dropWhile is_digit (str_nat n @ ''.0'') = ''.0''"
    using all dot by (simp add: dropWhile_append2 del: str_nat.simps)
  show ?thesis
    using str_nat_leading [of n]
    by (simp add: whole_parse_def whole_repr_def t d str_nat_not_Nil nat_of_digits_str_nat Let_def
        del: str_nat.simps)
qed

lemma whole_repr_num_chars: "list_all is_num_char (whole_repr x)"
proof -
  have "is_digit c \<Longrightarrow> is_num_char c" for c
  proof -
    assume "is_digit c"
    then have "(of_char c :: nat) \<in> {48, 49, 50, 51, 52, 53, 54, 55, 56, 57}"
      unfolding is_digit_def by simp arith
    then have "(of_char c :: nat) \<in> of_char ` set ''0123456789''" by simp
    then obtain d where "d \<in> set ''0123456789''" "(of_char c :: nat) = of_char d" by blast
    then have "c \<in> set ''0123456789''" by (simp only: of_char_eq_iff)
    then show ?thesis by (auto simp: is_num_char_def)
  qed
  then have "list_all is_num_char (str_nat n)" for n
    using str_nat_digits [of n] by (auto simp: list_all_iff simp del: str_nat.simps)
  then show ?thesis by (simp add: whole_repr_def is_num_char_def del: str_nat.simps)
qed

lemma whole_repr_not_Nil: "whole_repr x \<noteq> []"
  by (simp add: whole_repr_def del: str_nat.simps)

lemma whole_number_float_ok: "float_ok env0 (real n)"
  by (simp add: float_ok_def env0_def whole_parse_repr whole_repr_num_chars whole_repr_not_Nil)

text \<open>
  The bound on the turns of the loop of the decoder is never met: the decoders of the
  items give back a rest of the text they were given, so that a larger bound gives the
  same result.
\<close>

lemma shrinksD: "shrinks p \<Longrightarrow> p s = Some (x, r) \<Longrightarrow> length r \<le> length s"
  by (auto simp: shrinks_def)

lemma length_skip_ws: "length (skip_ws s) \<le> length s"
  by (simp add: skip_ws_def length_dropWhile_le)

lemma parse_items_fuel:
  assumes "shrinks p"
  shows "length s < fuel \<Longrightarrow> length s < fuel' \<Longrightarrow>
           parse_items fuel cls p acc s = parse_items fuel' cls p acc s"
proof (induction fuel arbitrary: fuel' acc s)
  case 0
  then show ?case by simp
next
  case (Suc f)
  then obtain f' where f': "fuel' = Suc f'" by (cases fuel') auto
  show ?case
  proof (cases "skip_ws s")
    case Nil
    then show ?thesis by (simp add: f')
  next
    case (Cons c r)
    have lr: "length r < length s"
      using length_skip_ws [of s] Cons by simp
    show ?thesis
    proof (cases "p (skip_ws r)")
      case None
      then show ?thesis by (simp add: f' Cons)
    next
      case (Some xr)
      obtain x r' where xr: "xr = (x, r')" by (cases xr)
      have "length r' \<le> length (skip_ws r)"
        using shrinksD [OF assms] Some xr by blast
      then have "length r' < length s" using length_skip_ws [of r] lr by simp
      then have "parse_items f cls p (acc @ [x]) r' = parse_items f' cls p (acc @ [x]) r'"
        using Suc.prems f' by (intro Suc.IH) simp_all
      then show ?thesis by (simp add: f' Cons Some xr)
    qed
  qed
qed

lemma parse_items_length:
  assumes "shrinks p"
  shows "parse_items fuel cls p acc s = Some (xs, r) \<Longrightarrow> length r \<le> length s"
proof (induction fuel arbitrary: acc s)
  case 0
  then show ?case by simp
next
  case (Suc f)
  show ?case
  proof (cases "skip_ws s")
    case Nil
    then show ?thesis using Suc.prems by simp
  next
    case (Cons c r0)
    have lr: "length r0 < length s"
      using length_skip_ws [of s] Cons by simp
    show ?thesis
    proof (cases "c = cls")
      case True
      then show ?thesis using Suc.prems Cons lr by simp
    next
      case False
      then obtain x r' where px: "p (skip_ws r0) = Some (x, r')"
        and rec: "parse_items f cls p (acc @ [x]) r' = Some (xs, r)"
        using Suc.prems Cons by (auto split: if_splits option.splits)
      have "length r' \<le> length (skip_ws r0)" using shrinksD [OF assms px] .
      moreover have "length r \<le> length r'" using Suc.IH [OF rec] .
      ultimately show ?thesis using length_skip_ws [of r0] lr by simp
    qed
  qed
qed

lemma shrinks_parse_seq: "shrinks p \<Longrightarrow> shrinks (parse_seq opn cls p)"
proof -
  assume p: "shrinks p"
  show ?thesis
    unfolding shrinks_def
  proof (intro allI impI)
    fix s xs r
    assume a: "parse_seq opn cls p s = Some (xs, r)"
    then obtain c s1 where s: "s = c # s1" by (cases s) (simp_all add: parse_seq_def)
    show "length r \<le> length s"
    proof (cases "skip_ws s1")
      case Nil
      then show ?thesis using a by (simp add: parse_seq_def s split: if_splits)
    next
      case (Cons d r0)
      show ?thesis
      proof (cases "d = cls")
        case True
        then have "r = r0" using a Cons by (simp add: parse_seq_def s split: if_splits)
        then show ?thesis using length_skip_ws [of s1] Cons by (simp add: s)
      next
        case False
        then obtain x r' where px: "p (skip_ws s1) = Some (x, r')"
          and rec: "parse_items (Suc (length r')) cls p [x] r' = Some (xs, r)"
          using a Cons by (auto simp: parse_seq_def s split: if_splits option.splits)
        have "length r' \<le> length (skip_ws s1)" using shrinksD [OF p px] .
        moreover have "length r \<le> length r'" using parse_items_length [OF p rec] .
        ultimately show ?thesis using length_skip_ws [of s1] by (simp add: s)
      qed
    qed
  qed
qed

lemma scanstring_length: "scanstring st acc s = Some (x, r) \<Longrightarrow> length r \<le> length s"
proof (induction s arbitrary: st acc)
  case Nil
  then show ?case by simp
next
  case (Cons c cs)
  show ?case
  proof (cases st)
    case Plain
    then show ?thesis
      using Cons.prems Cons.IH [of Escape acc] Cons.IH [of Plain "acc @ [c]"]
      by (auto split: if_splits)
  next
    case Escape
    show ?thesis
    proof (cases "c = CHR ''u''")
      case True
      then show ?thesis using Cons.prems Escape Cons.IH [of "Unicode []" acc] by simp
    next
      case False
      then obtain d where "scanstring Plain (acc @ [d]) cs = Some (x, r)"
        using Cons.prems Escape by (auto split: option.splits)
      then show ?thesis using Cons.IH [of Plain "acc @ [d]"] by simp
    qed
  next
    case (Unicode ds)
    from Cons.prems Unicode obtain d where d: "hex_val c = Some d"
      by (auto split: option.splits)
    show ?thesis
    proof (cases "length ds < 3")
      case True
      then have "scanstring (Unicode (ds @ [d])) acc cs = Some (x, r)"
        using Cons.prems Unicode d by simp
      then show ?thesis using Cons.IH [of "Unicode (ds @ [d])" acc] by simp
    next
      case False
      let ?n = "foldl (\<lambda>a d. 16 * a + d) 0 (ds @ [d])"
      have "scanstring Plain (acc @ [char_of ?n]) cs = Some (x, r)"
        using Cons.prems Unicode d False by (auto simp: Let_def split: if_splits)
      then show ?thesis using Cons.IH [of Plain "acc @ [char_of ?n]"] by simp
    qed
  qed
qed

lemma shrinks_parse_str: "shrinks parse_str"
  unfolding shrinks_def
proof (intro allI impI)
  fix s x r
  assume "parse_str s = Some (x, r)"
  then show "length r \<le> length s"
    using scanstring_length [of Plain "[]" "tl s" x r]
    by (cases s) (auto simp: parse_str_def split: if_splits)
qed

lemma shrinks_parse_number: "shrinks (parse_number e)"
  by (auto simp: shrinks_def parse_number_def length_dropWhile_le split: if_splits option.splits)

lemma shrinks_parse_item: "shrinks pv \<Longrightarrow> shrinks (parse_item pv)"
proof -
  assume pv: "shrinks pv"
  show ?thesis
    unfolding shrinks_def
  proof (intro allI impI)
    fix s kv r
    assume a: "parse_item pv s = Some (kv, r)"
    then obtain k r0 where k: "parse_str s = Some (k, r0)"
      by (auto simp: parse_item_def split: option.splits)
    then obtain c r1 where c: "skip_ws r0 = c # r1"
      using a by (cases "skip_ws r0") (auto simp: parse_item_def)
    then obtain v where v: "pv (skip_ws r1) = Some (v, r)"
      using a k by (auto simp: parse_item_def split: if_splits option.splits)
    have "length r0 \<le> length s" using shrinksD [OF shrinks_parse_str k] .
    moreover have "length r1 \<le> length r0" using length_skip_ws [of r0] c by simp
    moreover have "length r \<le> length r1"
      using shrinksD [OF pv v] length_skip_ws [of r1] by simp
    ultimately show "length r \<le> length s" by simp
  qed
qed

lemma shrinks_parse_chunk: "shrinks parse_chunk"
proof -
  have "shrinks (parse_dict parse_str)"
    unfolding parse_dict_def by (intro shrinks_parse_seq shrinks_parse_item shrinks_parse_str)
  then show ?thesis
    by (auto simp: shrinks_def parse_chunk_def split: option.splits)
qed

lemma shrinks_parse_field: "shrinks (parse_field e)"
proof -
  have c: "shrinks (parse_seq CHR ''['' CHR '']'' parse_chunk)"
    by (intro shrinks_parse_seq shrinks_parse_chunk)
  show ?thesis
    unfolding shrinks_def
  proof (intro allI impI)
    fix s x r
    assume a: "parse_field e s = Some (x, r)"
    then obtain d ds where s: "s = d # ds" by (cases s) (simp_all add: parse_field_def)
    show "length r \<le> length s"
      using a shrinksD [OF shrinks_parse_str, of s] shrinksD [OF c, of s]
        shrinksD [OF shrinks_parse_number, of e s]
      unfolding s by (auto simp: parse_field_def split: if_splits)
  qed
qed

lemma shrinks_parse_generation: "shrinks (parse_generation e)"
proof -
  have "shrinks (parse_dict (parse_field e))"
    unfolding parse_dict_def by (intro shrinks_parse_seq shrinks_parse_item shrinks_parse_field)
  then show ?thesis
    by (auto simp: shrinks_def parse_generation_def split: option.splits)
qed

lemma parse_items_enough_fuel:
  "shrinks p \<Longrightarrow> length r < fuel \<Longrightarrow>
     parse_items fuel cls p acc r = parse_items (Suc (length r)) cls p acc r"
  by (rule parse_items_fuel) simp_all

subsection \<open>The ledger file\<close>




text \<open>
  The other case: a save that cannot open the file leaves what would be loaded as it was.
\<close>

lemma failed_save_keeps_file:
  "open_w_fails e file_path \<Longrightarrow>
     load_generations e file_path (save_generations e file_path gens w)
       = load_generations e file_path w"
  by (simp add: save_generations_def)

subsection \<open>The reaper\<close>

text \<open>
  What the loop of the reaper leaves of a path: nothing if it is the path of a listed
  entry that is to be removed, and what was there otherwise.
\<close>

lemma cleanup_loop_lookup:
  "lookup (fs (snd (cleanup_loop e d now thr ns w))) q =
     (if \<exists>n\<in>set ns. resolve q = resolve (os_path_join d n) \<and> doomed e d now thr w n
      then None else lookup (fs w) q)"
proof (induction ns arbitrary: w)
  case Nil
  show ?case by simp
next
  case (Cons n ns)
  let ?p = "os_path_join d n"
  show ?case
  proof (cases "doomed e d now thr w n")
    case True
    then obtain m c where f: "lookup (fs w) ?p = Some (File m c)" and old: "now - m > thr"
      and sw: "startswith n ''chunk_''" and ok: "\<not> remove_fails e ?p"
      by (auto simp: doomed_def split: option.splits node.splits)
    let ?w1 = "w\<lparr>fs := AList.delete (resolve ?p) (fs w)\<rparr>"
    have step: "cleanup_loop e d now thr (n # ns) w = cleanup_loop e d now thr ns ?w1"
      using f old sw ok
      by (simp add: os_path_isfile_def os_path_getmtime_def os_remove_def)
    have same: "doomed e d now thr ?w1 n' = doomed e d now thr w n'"
      if "resolve (os_path_join d n') \<noteq> resolve ?p" for n'
      using that by (simp add: doomed_def lookup_delete)
    show ?thesis
    proof (cases "resolve q = resolve ?p")
      case True
      then show ?thesis using \<open>doomed e d now thr w n\<close>
        by (simp add: step Cons.IH lookup_delete del: cleanup_loop.simps)
    next
      case False
      then have "(\<exists>n'\<in>set ns. resolve q = resolve (os_path_join d n')
                    \<and> doomed e d now thr ?w1 n')
        \<longleftrightarrow> (\<exists>n'\<in>set ns. resolve q = resolve (os_path_join d n')
                    \<and> doomed e d now thr w n')"
        using same by metis
      then show ?thesis using False
        by (simp add: step Cons.IH lookup_delete del: cleanup_loop.simps) blast
    qed
  next
    case False
    then have step: "cleanup_loop e d now thr (n # ns) w = cleanup_loop e d now thr ns w"
      by (auto simp: doomed_def os_path_isfile_def os_path_getmtime_def os_remove_def Let_def
               split: option.splits node.splits)
    show ?thesis using False by (simp add: step Cons.IH del: cleanup_loop.simps)
  qed
qed

text \<open>
  Claim C4.  For a regular file in the temporary directory (its path is the directory
  joined with its name), last modified at \<open>m\<close>: if its name starts with \<^verbatim>\<open>chunk_\<close>
  and its age, the current time minus \<open>m\<close>, is greater than the retention, the reaper
  removes it (the system not refusing the removal, the case that the source catches and
  prints); if its name starts with \<^verbatim>\<open>chunk_\<close> and its age is not greater, it is kept
  as it is; if its name does not start with \<^verbatim>\<open>chunk_\<close>, it is kept as it is whatever
  its age.
\<close>

theorem reaper_age_and_prefix:
  assumes "os_path_isdir (fs w) tdir"
    and "filename \<noteq> []"
    and "CHR ''/'' \<notin> set filename"
    and "lookup (fs w) (os_path_join tdir filename) = Some (File m c)"
  shows "(startswith filename ''chunk_'' \<and> clock w - m > retention_days * 86400
            \<and> \<not> remove_fails e (os_path_join tdir filename)
          \<longrightarrow> \<not> os_path_exists (fs (snd (cleanup_temp_files e tdir retention_days w)))
                  (os_path_join tdir filename))
       \<and> (startswith filename ''chunk_'' \<and> \<not> clock w - m > retention_days * 86400
          \<longrightarrow> lookup (fs (snd (cleanup_temp_files e tdir retention_days w)))
                  (os_path_join tdir filename) = Some (File m c))
       \<and> (\<not> startswith filename ''chunk_''
          \<longrightarrow> lookup (fs (snd (cleanup_temp_files e tdir retention_days w)))
                  (os_path_join tdir filename) = Some (File m c))"
proof -
  let ?p = "os_path_join tdir filename"
  let ?thr = "retention_days * 86400"
  obtain names where ls: "os_listdir (fs w) tdir = Inr names" and mem: "filename \<in> set names"
    using listdir_complete [OF assms] by blast
  have ex: "os_path_exists (fs w) tdir"
    using assms(1) by (auto simp: os_path_isdir_def os_path_exists_def split: option.splits)
  have run: "cleanup_temp_files e tdir retention_days w
               = cleanup_loop e tdir (clock w) ?thr names w"
    using ex ls by (simp add: cleanup_temp_files_def Let_def)
  have only: "n = filename"
    if "n \<in> set names" "resolve ?p = resolve (os_path_join tdir n)" for n
    using listdir_names [OF ls that(1)] listdir_names [OF ls mem] that(2)
    by simp
  have d: "(\<exists>n\<in>set names. resolve ?p = resolve (os_path_join tdir n)
              \<and> doomed e tdir (clock w) ?thr w n)
           \<longleftrightarrow> doomed e tdir (clock w) ?thr w filename"
    using only mem by blast
  have l: "lookup (fs (snd (cleanup_temp_files e tdir retention_days w))) ?p
             = (if doomed e tdir (clock w) ?thr w filename then None else Some (File m c))"
    unfolding run cleanup_loop_lookup d using assms(4) by simp
  show ?thesis
    using assms(4) by (simp add: l os_path_exists_def doomed_def)
qed

lemma tempdir_world0: "os_path_isdir (fs world0) ''t''"
  by (simp add: world0_def os_defs)

lemma lookup_world0:
  "lookup (fs world0) (os_path_join ''t'' ''chunk_old.wav'') = Some (File 0 (Wav [0]))"
  "lookup (fs world0) (os_path_join ''t'' ''chunk_new.wav'') = Some (File 999999 (Wav [0]))"
  "lookup (fs world0) (os_path_join ''t'' ''combined_old.wav'') = Some (File 0 (Wav [0]))"
  by (simp_all add: world0_def os_defs)

theorem reaper_age_and_prefix_witness:
  "os_path_isdir (fs world0) ''t''
   \<and> lookup (fs world0) ''t/chunk_old.wav'' = Some (File 0 (Wav [0]))
   \<and> lookup (fs world0) ''t/chunk_new.wav'' = Some (File 999999 (Wav [0]))
   \<and> lookup (fs world0) ''t/combined_old.wav'' = Some (File 0 (Wav [0]))
   \<and> clock world0 - 0 > 7 * 86400
   \<and> \<not> clock world0 - 999999 > 7 * 86400
   \<and> \<not> os_path_exists (fs (snd (cleanup_temp_files env0 ''t'' 7 world0))) ''t/chunk_old.wav''
   \<and> lookup (fs (snd (cleanup_temp_files env0 ''t'' 7 world0))) ''t/chunk_new.wav''
       = Some (File 999999 (Wav [0]))
   \<and> lookup (fs (snd (cleanup_temp_files env0 ''t'' 7 world0))) ''t/combined_old.wav''
       = Some (File 0 (Wav [0]))"
proof -
  have c: "clock world0 = 1000000" by (simp add: world0_def)
  have r: "\<not> remove_fails env0 p" for p by (simp add: env0_def)
  have j: "os_path_join ''t'' ''chunk_old.wav'' = ''t/chunk_old.wav''"
    "os_path_join ''t'' ''chunk_new.wav'' = ''t/chunk_new.wav''"
    "os_path_join ''t'' ''combined_old.wav'' = ''t/combined_old.wav''"
    by (simp_all add: os_path_join_def startswith_def)
  have "\<not> os_path_exists (fs (snd (cleanup_temp_files env0 ''t'' 7 world0))) ''t/chunk_old.wav''"
    using reaper_age_and_prefix [OF tempdir_world0 _ _ lookup_world0(1),
            where e = env0 and retention_days = 7] c r
    by (simp add: startswith_def j)
  moreover have "lookup (fs (snd (cleanup_temp_files env0 ''t'' 7 world0))) ''t/chunk_new.wav''
       = Some (File 999999 (Wav [0]))"
    using reaper_age_and_prefix [OF tempdir_world0 _ _ lookup_world0(2),
            where e = env0 and retention_days = 7] c
    by (simp add: startswith_def j)
  moreover have "lookup (fs (snd (cleanup_temp_files env0 ''t'' 7 world0))) ''t/combined_old.wav''
       = Some (File 0 (Wav [0]))"
    using reaper_age_and_prefix [OF tempdir_world0 _ _ lookup_world0(3),
            where e = env0 and retention_days = 7]
    by (simp add: startswith_def j)
  ultimately show ?thesis using tempdir_world0 lookup_world0 c by (simp add: j)
qed

text \<open>
  The other case: an old file named \<^verbatim>\<open>chunk_...\<close> whose removal the system refuses stays
  as it is, and the reaper goes on.
\<close>

lemma refused_removal_keeps_file:
  assumes "os_path_isdir (fs w) tdir" and "filename \<noteq> []" and "CHR ''/'' \<notin> set filename"
    and "lookup (fs w) (os_path_join tdir filename) = Some (File m c)"
    and "remove_fails e (os_path_join tdir filename)"
  shows "lookup (fs (snd (cleanup_temp_files e tdir retention_days w)))
           (os_path_join tdir filename) = Some (File m c)"
proof -
  let ?p = "os_path_join tdir filename"
  let ?thr = "retention_days * 86400"
  obtain names where ls: "os_listdir (fs w) tdir = Inr names" and mem: "filename \<in> set names"
    using listdir_complete [OF assms(1-4)] by blast
  have ex: "os_path_exists (fs w) tdir"
    using assms(1) by (auto simp: os_path_isdir_def os_path_exists_def split: option.splits)
  have run: "cleanup_temp_files e tdir retention_days w
               = cleanup_loop e tdir (clock w) ?thr names w"
    using ex ls by (simp add: cleanup_temp_files_def Let_def)
  have only: "n = filename"
    if "n \<in> set names" "resolve ?p = resolve (os_path_join tdir n)" for n
    using listdir_names [OF ls that(1)] listdir_names [OF ls mem] that(2)
    by simp
  have "\<not> (\<exists>n\<in>set names. resolve ?p = resolve (os_path_join tdir n)
              \<and> doomed e tdir (clock w) ?thr w n)"
    using only assms(5) by (auto simp: doomed_def)
  then show ?thesis
    unfolding run cleanup_loop_lookup using assms(4) by simp
qed

subsection \<open>The main window\<close>

lemma all_dropWhile: "(\<forall>x\<in>set (dropWhile P s). P x) \<longleftrightarrow> (\<forall>c\<in>set s. P c)"
  by (induction s) auto

lemma strip_empty_iff: "strip s = [] \<longleftrightarrow> (\<forall>c\<in>set s. isspace c)"
  by (simp add: strip_def all_dropWhile)

text \<open>
  Claim C10.  When the text to synthesize is empty or consists of white space only, the
  handler of the button returns the window as it was: the button is not disabled, no
  worker thread is started, and the ledger and every other part of the window state are
  unchanged.
\<close>

theorem click_on_blank_text:
  assumes "\<forall>c\<in>set (text_edit win). isspace c"
  shows "on_synthesize_clicked win = win"
  using assms by (simp add: on_synthesize_clicked_def strip_empty_iff)

theorem click_on_blank_text_witness:
  "list_all isspace (text_edit (window0\<lparr>text_edit := [CHR 0x20, CHR 0x0A, CHR 0x09]\<rparr>))
   \<and> on_synthesize_clicked (window0\<lparr>text_edit := [CHR 0x20, CHR 0x0A, CHR 0x09]\<rparr>)
       = window0\<lparr>text_edit := [CHR 0x20, CHR 0x0A, CHR 0x09]\<rparr>"
  using click_on_blank_text [of "window0\<lparr>text_edit := [CHR 0x20, CHR 0x0A, CHR 0x09]\<rparr>"]
  by (simp add: isspace_def)

lemma process_events_last:
  "event_queue win = q @ [SynthButtonSetEnabled b] \<Longrightarrow>
     synth_button_enabled (process_events win) = b"
  by (simp add: process_events_def dispatch_def)

lemma run_synthesis_queue:
  "\<exists>q. event_queue (fst (run_synthesis e text v speed (win, w)))
         = event_queue win @ q @ [SynthButtonSetEnabled True]"
  by (cases "synthesize e (tts win) text speed v w" rule: prod_cases3)
     (auto simp: run_synthesis_def Let_def invoke_queued_def tuple_truthy_def
        split: sum.splits prod.splits option.splits)

text \<open>
  Claim C5.  A click with text that is not blank disables the button at once and starts
  one worker.  Whenever a worker runs, whether \<^verbatim>\<open>synthesize\<close> returned or raised, the
  last call it queues enables the button, so the button is enabled once the event loop
  has taken the queue.
\<close>

theorem submit_control_cycle:
  assumes "strip (text_edit win) \<noteq> []"
  shows "\<not> synth_button_enabled (on_synthesize_clicked win)
       \<and> threads (on_synthesize_clicked win)
           = threads win @
               [RunSynthesis (strip (text_edit win))
                  (if strip (voice_combo win) = [] then ''af_bella'' else voice_combo win)
                  (speed_spin win)]
       \<and> (\<forall>e text v speed win' w.
             last (event_queue (fst (run_synthesis e text v speed (win', w))))
               = SynthButtonSetEnabled True
             \<and> synth_button_enabled
                 (process_events (fst (run_synthesis e text v speed (win', w)))))"
proof (intro conjI allI)
  show "\<not> synth_button_enabled (on_synthesize_clicked win)"
    using assms by (simp add: on_synthesize_clicked_def Let_def invoke_queued_def)
  show "threads (on_synthesize_clicked win)
           = threads win @
               [RunSynthesis (strip (text_edit win))
                  (if strip (voice_combo win) = [] then ''af_bella'' else voice_combo win)
                  (speed_spin win)]"
    using assms by (simp add: on_synthesize_clicked_def Let_def invoke_queued_def)
next
  fix e tx v speed win' w
  obtain q where q: "event_queue (fst (run_synthesis e tx v speed (win', w)))
         = event_queue win' @ q @ [SynthButtonSetEnabled True]"
    using run_synthesis_queue by blast
  then show "last (event_queue (fst (run_synthesis e tx v speed (win', w))))
               = SynthButtonSetEnabled True" by simp
  from q have "event_queue (fst (run_synthesis e tx v speed (win', w)))
         = (event_queue win' @ q) @ [SynthButtonSetEnabled True]" by simp
  then show "synth_button_enabled
                 (process_events (fst (run_synthesis e tx v speed (win', w))))"
    by (simp only: process_events_last)
qed

lemma synthesize_readonly:
  "fst (synthesize env_readonly wrapper0 ''hi'' 1 ''a'' world0) = Inl IOError"
  by (simp add: synthesize_def load_voice_def build_model_def patched_load_voice_def
        save_audio_def sf_write_def upper_def digit_char_def env_readonly_def
        world0_def env0_def wrapper0_def os_defs Let_def stem_def basename_def)

lemma click_window0:
  "strip (text_edit window0) \<noteq> []
   \<and> threads (on_synthesize_clicked window0) = [RunSynthesis ''hi'' ''a'' 1]"
  by (simp add: on_synthesize_clicked_def window0_def strip_def isspace_def Let_def
        invoke_queued_def)

theorem submit_control_cycle_witness:
  "strip (text_edit window0) \<noteq> []
   \<and> \<not> synth_button_enabled (on_synthesize_clicked window0)
   \<and> threads (on_synthesize_clicked window0) = [RunSynthesis ''hi'' ''a'' 1]
   \<and> fst (synthesize env0 wrapper0 ''hi'' 1 ''a'' world0)
       = Inr ([(''hi'', ''ph'', [1 / 2], ''t/chunk_T_0.wav'')], Some ''t/combined_T.wav'')
   \<and> synth_button_enabled
       (process_events (fst (run_next_thread env0 (on_synthesize_clicked window0, world0))))
   \<and> fst (synthesize env_readonly wrapper0 ''hi'' 1 ''a'' world0) = Inl IOError
   \<and> synth_button_enabled
       (process_events
          (fst (run_next_thread env_readonly (on_synthesize_clicked window0, world0))))"
proof -
  have ne: "strip (text_edit window0) \<noteq> []" using click_window0 by simp
  note cycle = submit_control_cycle [OF ne]
  have "synth_button_enabled
       (process_events (fst (run_next_thread e (on_synthesize_clicked window0, world0))))" for e
    using cycle click_window0 by (simp add: run_next_thread_def)
  then show ?thesis
    using cycle click_window0 synthesize_world0 synthesize_readonly by simp
qed

text \<open>
  Claim C6.  \<^verbatim>\<open>clear_temp_files\<close>, with the temporary directory in place, completes and
  leaves a ledger with the same number of records in the same order, each with an empty
  chunk list and with the time stamp and the combined path it had.
\<close>

theorem clear_temp_files_keeps_records:
  assumes "os_path_isdir (fs w) (temp_dir (tts win))"
  shows "\<exists>win' w'. clear_temp_files e (win, w) = (Inr (), win', w')
        \<and> length (synthesis_results win') = length (synthesis_results win)
        \<and> (\<forall>gen\<in>set (synthesis_results win'). chunks gen = [])
        \<and> map timestamp (synthesis_results win') = map timestamp (synthesis_results win)
        \<and> map combined (synthesis_results win') = map combined (synthesis_results win)"
  using assms
  by (simp add: clear_temp_files_def os_listdir_def Let_def invoke_queued_def
        populate_results_table_def comp_def)

theorem clear_temp_files_keeps_records_witness:
  "os_path_isdir (fs world0) (temp_dir (tts (window0\<lparr>synthesis_results := gens0\<rparr>)))
   \<and> fst (clear_temp_files env0 (window0\<lparr>synthesis_results := gens0\<rparr>, world0)) = Inr ()
   \<and> map chunks (synthesis_results
        (fst (snd (clear_temp_files env0 (window0\<lparr>synthesis_results := gens0\<rparr>, world0)))))
       = [[]]
   \<and> map timestamp (synthesis_results
        (fst (snd (clear_temp_files env0 (window0\<lparr>synthesis_results := gens0\<rparr>, world0)))))
       = [1000000]
   \<and> map combined (synthesis_results
        (fst (snd (clear_temp_files env0 (window0\<lparr>synthesis_results := gens0\<rparr>, world0)))))
       = [''t/combined_T.wav'']"
proof -
  let ?win = "window0\<lparr>synthesis_results := gens0\<rparr>"
  have d: "os_path_isdir (fs world0) (temp_dir (tts ?win))"
    by (simp add: window0_def wrapper0_def world0_def os_defs)
  from clear_temp_files_keeps_records [OF d, of env0]
  obtain win' w' where r: "clear_temp_files env0 (?win, world0) = (Inr (), win', w')"
    and l: "length (synthesis_results win') = length (synthesis_results ?win)"
    and c: "\<forall>gen\<in>set (synthesis_results win'). chunks gen = []"
    and t: "map timestamp (synthesis_results win') = map timestamp (synthesis_results ?win)"
    and b: "map combined (synthesis_results win') = map combined (synthesis_results ?win)"
    by blast
  from l obtain g where g: "synthesis_results win' = [g]"
    by (cases "synthesis_results win'") (auto simp: gens0_def)
  with c have "map chunks (synthesis_results win') = [[]]" by simp
  then show ?thesis using d r t b by (simp add: gens0_def)
qed

text \<open>
  The other case: without the temporary directory \<^verbatim>\<open>os.listdir\<close> raises, and the window
  and the world are as they were.
\<close>

lemma clear_temp_files_without_directory:
  "\<not> os_path_isdir (fs w) (temp_dir (tts win)) \<Longrightarrow>
     \<exists>x. clear_temp_files e (win, w) = (Inl x, win, w)"
  by (simp add: clear_temp_files_def os_listdir_def)

lemma combined_field_exists:
  "combined_field f cp \<noteq> [] \<Longrightarrow> os_path_exists f (combined_field f cp)"
  by (auto simp: combined_field_def split: option.splits if_splits)

lemma combined_field_cases:
  "combined_field f cp = [] \<or> Some (combined_field f cp) = cp"
  by (auto simp: combined_field_def split: option.splits if_splits)

lemma run_synthesis_raised:
  "fst (synthesize e (tts win) text speed v w) = Inl x \<Longrightarrow>
     synthesis_results (fst (run_synthesis e text v speed (win, w))) = synthesis_results win"
  by (cases "synthesize e (tts win) text speed v w" rule: prod_cases3)
     (auto simp: run_synthesis_def Let_def invoke_queued_def)

lemma run_synthesis_returned:
  "fst (synthesize e (tts win) text speed v w) = Inr (chunk_list, cp) \<Longrightarrow>
     synthesis_results (fst (run_synthesis e text v speed (win, w)))
       = synthesis_results win @
           [\<lparr>timestamp = clock (snd (snd (synthesize e (tts win) text speed v w))),
             chunks = map chunk_to_meta chunk_list,
             combined =
               combined_field (fs (snd (snd (synthesize e (tts win) text speed v w)))) cp\<rparr>]"
  by (cases "synthesize e (tts win) text speed v w" rule: prod_cases3)
     (auto simp: run_synthesis_def Let_def invoke_queued_def tuple_truthy_def
           split: option.splits)

lemma after_synthesize_world0:
  "clock (snd (snd (synthesize env0 wrapper0 ''hi'' 1 ''a'' world0))) = 1000000"
  "os_path_exists (fs (snd (snd (synthesize env0 wrapper0 ''hi'' 1 ''a'' world0))))
     ''t/combined_T.wav''"
  by (simp_all add: synthesize_world0) (simp_all add: world0_def os_defs)

lemma run_synthesis_world0:
  "synthesis_results (fst (run_synthesis env0 ''hi'' ''a'' 1 (window0, world0)))
     = synthesis_results window0 @ gens0"
proof -
  have t: "tts window0 = wrapper0" by (simp add: window0_def)
  have s: "fst (synthesize env0 (tts window0) ''hi'' 1 ''a'' world0)
             = Inr ([(''hi'', ''ph'', [1 / 2], ''t/chunk_T_0.wav'')], Some ''t/combined_T.wav'')"
    by (simp add: t synthesize_world0)
  show ?thesis
    using run_synthesis_returned [OF s] after_synthesize_world0
    by (simp add: t gens0_def chunk_to_meta_def combined_field_def)
qed

text \<open>
  Claim C9.  A record that the worker appends to the ledger with a combined path that is
  not empty names a file that exists at that moment, in the world as \<^verbatim>\<open>synthesize\<close> left
  it; a combined file that does not exist gives the empty string.
\<close>

theorem recorded_combined_exists:
  "\<forall>gen. synthesis_results (fst (run_synthesis e text v speed (win, w)))
            = synthesis_results win @ [gen]
        \<longrightarrow> combined gen \<noteq> []
        \<longrightarrow> os_path_exists (fs (snd (snd (synthesize e (tts win) text speed v w))))
              (combined gen)"
proof (intro allI impI)
  fix gen
  assume a: "synthesis_results (fst (run_synthesis e text v speed (win, w)))
            = synthesis_results win @ [gen]" and c: "combined gen \<noteq> []"
  show "os_path_exists (fs (snd (snd (synthesize e (tts win) text speed v w)))) (combined gen)"
  proof (cases "fst (synthesize e (tts win) text speed v w)")
    case (Inl x)
    from run_synthesis_raised [OF Inl] a show ?thesis by simp
  next
    case (Inr r)
    obtain cl cp where r: "r = (cl, cp)" by (cases r)
    from run_synthesis_returned [OF Inr [unfolded r]] a
    have "combined gen
            = combined_field (fs (snd (snd (synthesize e (tts win) text speed v w)))) cp"
      by auto
    with c combined_field_exists show ?thesis by metis
  qed
qed

theorem recorded_combined_exists_witness:
  "synthesis_results (fst (run_synthesis env0 ''hi'' ''a'' 1 (window0, world0)))
     = synthesis_results window0 @ gens0
   \<and> combined (hd gens0) = ''t/combined_T.wav''
   \<and> os_path_exists (fs (snd (snd (synthesize env0 (tts window0) ''hi'' 1 ''a'' world0))))
       ''t/combined_T.wav''"
proof -
  have g: "gens0 = [hd gens0]" "combined (hd gens0) = ''t/combined_T.wav''"
    by (simp_all add: gens0_def)
  from recorded_combined_exists [of env0 "''hi''" "''a''" 1 window0 world0]
  have "os_path_exists (fs (snd (snd (synthesize env0 (tts window0) ''hi'' 1 ''a'' world0))))
          (combined (hd gens0))"
    using run_synthesis_world0 g by (metis list.discI)
  then show ?thesis using run_synthesis_world0 g by simp
qed

lemma run_synthesis_returned_world:
  "synthesize e (tts win) text speed v w = (Inr (chunk_list, cp), self', w1) \<Longrightarrow>
     snd (run_synthesis e text v speed (win, w))
       = save_generations e PERSIST_FILE
           (synthesis_results win @
              [\<lparr>timestamp = clock w1, chunks = map chunk_to_meta chunk_list,
                combined = combined_field (fs w1) cp\<rparr>]) w1"
  by (simp add: run_synthesis_def Let_def invoke_queued_def tuple_truthy_def
        window_save_generations_def split: option.splits)

lemma run_synthesis_returned_status:
  "fst (synthesize e (tts win) text speed v w) = Inr results \<Longrightarrow>
     UpdateStatusMessage ''Synthesis complete.'' 2000
       \<in> set (event_queue (fst (run_synthesis e text v speed (win, w))))"
  by (cases "synthesize e (tts win) text speed v w" rule: prod_cases3)
     (auto simp: run_synthesis_def Let_def invoke_queued_def tuple_truthy_def
           split: option.splits prod.splits)

lemma synthesize_silent:
  "synthesize env_silent wrapper0 ''hi'' 1 ''a'' world0
     = (Inr ([], None),
        wrapper0\<lparr>last_synthesis_timestamp := Some ''T''\<rparr>,
        world0\<lparr>cached_pipeline := Some \<lparr>device = ''cpu'', voices = [(''a'', [0])]\<rparr>\<rparr>)"
  by (simp add: synthesize_def load_voice_def build_model_def patched_load_voice_def
        env_silent_def world0_def env0_def wrapper0_def os_defs Let_def stem_def basename_def)

text \<open>
  Claim C7.  One run of the worker either appends a full record to the ledger, with the
  time stamp, the metadata of every chunk and the combined path, or leaves the ledger as
  it was, also when the synthesis produces no chunk.  The code does not do this when the
  pipeline yields no segment with audio: \<^verbatim>\<open>synthesize\<close> returns the pair \<^verbatim>\<open>([], None)\<close>,
  the test \<^verbatim>\<open>if results:\<close>, which is meant to skip the append, is on a tuple of length
  two and never fails, and the worker appends a record with no chunk and the empty string
  for the combined path, writes the ledger file with it and reports
  \<^verbatim>\<open>Synthesis complete.\<close>  Here for the text \<^verbatim>\<open>hi\<close> and a pipeline that yields one segment
  without audio.
\<close>

theorem zero_chunks_record_appended:
  "fst (synthesize env_silent (tts window0) ''hi'' 1 ''a'' world0) = Inr ([], None)
   \<and> synthesis_results (fst (run_synthesis env_silent ''hi'' ''a'' 1 (window0, world0)))
       = synthesis_results window0 @ [\<lparr>timestamp = 1000000, chunks = [], combined = []\<rparr>]
   \<and> load_generations env_silent PERSIST_FILE
         (snd (run_synthesis env_silent ''hi'' ''a'' 1 (window0, world0)))
       = [\<lparr>timestamp = 1000000, chunks = [], combined = []\<rparr>]
   \<and> UpdateStatusMessage ''Synthesis complete.'' 2000
         \<in> set (event_queue (fst (run_synthesis env_silent ''hi'' ''a'' 1 (window0, world0))))"
proof -
  let ?w1 = "world0\<lparr>cached_pipeline := Some \<lparr>device = ''cpu'', voices = [(''a'', [0])]\<rparr>\<rparr>"
  let ?gen = "\<lparr>timestamp = 1000000, chunks = [], combined = []\<rparr> :: generation"
  have t: "tts window0 = wrapper0" "synthesis_results window0 = []"
    by (simp_all add: window0_def)
  have s: "synthesize env_silent (tts window0) ''hi'' 1 ''a'' world0
             = (Inr ([], None), wrapper0\<lparr>last_synthesis_timestamp := Some ''T''\<rparr>, ?w1)"
    by (simp add: t synthesize_silent)
  have c: "clock ?w1 = 1000000" by (simp add: world0_def)
  have 1: "fst (synthesize env_silent (tts window0) ''hi'' 1 ''a'' world0) = Inr ([], None)"
    by (simp add: s)
  have 2: "synthesis_results (fst (run_synthesis env_silent ''hi'' ''a'' 1 (window0, world0)))
             = synthesis_results window0 @ [?gen]"
    using run_synthesis_returned [OF 1] by (simp add: s c combined_field_def)
  have w: "snd (run_synthesis env_silent ''hi'' ''a'' 1 (window0, world0))
             = save_generations env_silent PERSIST_FILE [?gen] ?w1"
    using run_synthesis_returned_world [OF s] by (simp add: t c combined_field_def)
  have "float_ok env0 (real 1000000)" by (rule whole_number_float_ok)
  then have "float_ok env_silent 1000000" by (simp add: float_ok_def env_silent_def)
  then have "well_formed env_silent [?gen]" by (simp add: well_formed_def)
  then have j: "json_loads env_silent (json_dumps env_silent [?gen]) = Some [?gen]"
    by (rule json_round_trip)
  have o: "\<not> open_w_fails env_silent PERSIST_FILE" "\<not> os_path_isdir (fs ?w1) PERSIST_FILE"
    by (simp_all add: env_silent_def env0_def world0_def PERSIST_FILE_def os_defs)
  have 3: "load_generations env_silent PERSIST_FILE
             (snd (run_synthesis env_silent ''hi'' ''a'' 1 (window0, world0))) = [?gen]"
    unfolding w using o j
    by (simp add: load_generations_def save_generations_def os_path_exists_def lookup_put_file)
  show ?thesis
    using 1 2 3 run_synthesis_returned_status [OF 1] by simp
qed

text \<open>
  So it is for every input with a voice that loads and a pipeline that yields no segment
  with audio.
\<close>

lemma empty_synthesis_appends_empty_record:
  assumes "fst (load_voice e v (tts_device (tts win)) w) = Inr vm"
    and "nonempty_segments
           (raw_synthesis e text (''voices/'' @ v @ ''.pt'') speed (split_pattern (tts win))) = []"
  shows "\<exists>ts. synthesis_results (fst (run_synthesis e text v speed (win, w)))
           = synthesis_results win @ [\<lparr>timestamp = ts, chunks = [], combined = []\<rparr>]"
proof -
  have "fst (synthesize e (tts win) text speed v w) = Inr ([], None)"
    using assms
    by (cases "load_voice e v (tts_device (tts win)) w")
       (simp add: synthesize_def Let_def synth_loop_none)
  from run_synthesis_returned [OF this] show ?thesis
    by (simp add: combined_field_def)
qed

text \<open>
  The other runs do what the claim says.  When the pipeline yields a segment with audio
  and \<^verbatim>\<open>synthesize\<close> raises, the ledger is as it was; when it returns, one record is
  appended, with one entry per returned chunk, in order, holding the graphemes and
  phonemes of the segments with audio, and with the returned combined path, which names
  a file.
\<close>

lemma ledger_append_with_chunks:
  assumes "nonempty_segments
             (raw_synthesis e text (''voices/'' @ v @ ''.pt'') speed (split_pattern (tts win)))
           \<noteq> []"
  shows "(case fst (synthesize e (tts win) text speed v w) of
      Inl x \<Rightarrow>
        synthesis_results (fst (run_synthesis e text v speed (win, w))) = synthesis_results win
    | Inr (chunk_list, combined_path) \<Rightarrow>
        (\<exists>gen. synthesis_results (fst (run_synthesis e text v speed (win, w)))
                  = synthesis_results win @ [gen]
             \<and> chunks gen = map chunk_to_meta chunk_list
             \<and> map (\<lambda>c. (graphemes c, phonemes c)) (chunks gen)
                 = map (\<lambda>seg. (fst seg, fst (snd seg)))
                     (nonempty_segments
                        (raw_synthesis e text (''voices/'' @ v @ ''.pt'') speed
                           (split_pattern (tts win))))
             \<and> chunks gen \<noteq> []
             \<and> Some (combined gen) = combined_path
             \<and> os_path_isfile (fs (snd (snd (synthesize e (tts win) text speed v w))))
                 (combined gen)))"
proof (cases "fst (synthesize e (tts win) text speed v w)")
  case (Inl x)
  then show ?thesis using run_synthesis_raised [OF Inl] by simp
next
  case (Inr r)
  obtain cl cp where r: "r = (cl, cp)" by (cases r)
  let ?segs = "raw_synthesis e text (''voices/'' @ v @ ''.pt'') speed (split_pattern (tts win))"
  let ?w1 = "snd (snd (synthesize e (tts win) text speed v w))"
  let ?gen = "\<lparr>timestamp = clock ?w1, chunks = map chunk_to_meta cl,
               combined = combined_field (fs ?w1) cp\<rparr>"
  have full: "synthesize e (tts win) text speed v w
                = (Inr (cl, cp), fst (snd (synthesize e (tts win) text speed v w)), ?w1)"
    using Inr r by (simp add: prod_eq_iff)
  have seg: "map chunk_segment cl = nonempty_segments ?segs"
    using synthesize_returned(1) [OF full] .
  have meta: "map (\<lambda>c. (graphemes c, phonemes c)) (map chunk_to_meta cl)
                = map (\<lambda>seg. (fst seg, fst (snd seg))) (map chunk_segment cl)"
    by (simp add: chunk_to_meta_def chunk_segment_def split_def)
  obtain s where cp: "cp = Some (s @ ''.wav'')"
    and isf: "os_path_isfile (fs ?w1) (s @ ''.wav'')"
    using synthesize_returned(3) [OF full assms] by blast
  have comb: "combined_field (fs ?w1) cp = s @ ''.wav''"
    using isf by (simp add: cp combined_field_def isfile_exists)
  have ne: "cl \<noteq> []" using seg assms by auto
  have "synthesis_results (fst (run_synthesis e text v speed (win, w)))
          = synthesis_results win @ [?gen]"
    using run_synthesis_returned [OF Inr [unfolded r]] .
  moreover have "map (\<lambda>c. (graphemes c, phonemes c)) (chunks ?gen)
                   = map (\<lambda>seg. (fst seg, fst (snd seg))) (nonempty_segments ?segs)"
    using meta seg by simp
  moreover have "chunks ?gen \<noteq> []" using ne by simp
  moreover have "Some (combined ?gen) = cp" using comb cp by simp
  moreover have "os_path_isfile (fs ?w1) (combined ?gen)" using comb isf by simp
  ultimately have "\<exists>gen. synthesis_results (fst (run_synthesis e text v speed (win, w)))
                  = synthesis_results win @ [gen]
             \<and> chunks gen = map chunk_to_meta cl
             \<and> map (\<lambda>c. (graphemes c, phonemes c)) (chunks gen)
                 = map (\<lambda>seg. (fst seg, fst (snd seg))) (nonempty_segments ?segs)
             \<and> chunks gen \<noteq> []
             \<and> Some (combined gen) = cp
             \<and> os_path_isfile (fs ?w1) (combined gen)"
    by (intro exI [of _ ?gen]) simp
  then show ?thesis using Inr r by simp
qed

end
